theory Spec2Isabelle
  imports Complex_Main "HOL-Library.Multiset"
begin

section \<open>Unicode tables\<close>

text \<open>
  The character tests of \<open>str\<close> and of \<open>re\<close> on \<open>str\<close> patterns read the Unicode
  database of the interpreter. The tables below are those of Unicode 14.0.0 (CPython
  3.11), as inclusive ranges of code points: the decimal digits (category Nd, the class
  \<open>\d\<close>, and the digits \<open>int\<close> reads), and the characters for which \<open>str.isalnum\<close>
  holds (with the underscore, the class \<open>\w\<close>). The ranges of Basic Latin and of the
  Hebrew block are written into the tests themselves.
\<close>

definition in_ranges :: "(nat \<times> nat) list \<Rightarrow> nat \<Rightarrow> bool" where
  "in_ranges rs c = list_ex (\<lambda>(lo, hi). lo \<le> c \<and> c \<le> hi) rs"

text \<open>
  Decimal digits above U+0660. Every range starts at a digit zero and holds whole runs
  of ten digits, so the value of a digit is its offset in the range modulo 10.
\<close>

definition digit_ranges_high :: "(nat \<times> nat) list" where
  "digit_ranges_high =
     [(1632, 1641), (1776, 1785), (1984, 1993), (2406, 2415), (2534, 2543), (2662, 2671),
      (2790, 2799), (2918, 2927), (3046, 3055), (3174, 3183), (3302, 3311), (3430, 3439),
      (3558, 3567), (3664, 3673), (3792, 3801), (3872, 3881), (4160, 4169), (4240, 4249),
      (6112, 6121), (6160, 6169), (6470, 6479), (6608, 6617), (6784, 6793), (6800, 6809),
      (6992, 7001), (7088, 7097), (7232, 7241), (7248, 7257), (42528, 42537),
      (43216, 43225), (43264, 43273), (43472, 43481), (43504, 43513), (43600, 43609),
      (44016, 44025), (65296, 65305), (66720, 66729), (68912, 68921), (69734, 69743),
      (69872, 69881), (69942, 69951), (70096, 70105), (70384, 70393), (70736, 70745),
      (70864, 70873), (71248, 71257), (71360, 71369), (71472, 71481), (71904, 71913),
      (72016, 72025), (72784, 72793), (73040, 73049), (73120, 73129), (92768, 92777),
      (92864, 92873), (93008, 93017), (120782, 120831), (123200, 123209),
      (123632, 123641), (125264, 125273), (130032, 130041)]"

text \<open>Alphanumeric characters from U+0080 to U+058F.\<close>

definition alnum_ranges_low :: "(nat \<times> nat) list" where
  "alnum_ranges_low =
     [(170, 170), (178, 179), (181, 181), (185, 186), (188, 190), (192, 214), (216, 246),
      (248, 705), (710, 721), (736, 740), (748, 748), (750, 750), (880, 884), (886, 887),
      (890, 893), (895, 895), (902, 902), (904, 906), (908, 908), (910, 929),
      (931, 1013), (1015, 1153), (1162, 1327), (1329, 1366), (1369, 1369), (1376, 1416)]"

text \<open>Alphanumeric characters above the Hebrew block (from U+0600).\<close>

definition alnum_ranges_high :: "(nat \<times> nat) list" where
  "alnum_ranges_high =
     [(1568, 1610), (1632, 1641), (1646, 1647), (1649, 1747), (1749, 1749), (1765, 1766),
      (1774, 1788), (1791, 1791), (1808, 1808), (1810, 1839), (1869, 1957), (1969, 1969),
      (1984, 2026), (2036, 2037), (2042, 2042), (2048, 2069), (2074, 2074), (2084, 2084),
      (2088, 2088), (2112, 2136), (2144, 2154), (2160, 2183), (2185, 2190), (2208, 2249),
      (2308, 2361), (2365, 2365), (2384, 2384), (2392, 2401), (2406, 2415), (2417, 2432),
      (2437, 2444), (2447, 2448), (2451, 2472), (2474, 2480), (2482, 2482), (2486, 2489),
      (2493, 2493), (2510, 2510), (2524, 2525), (2527, 2529), (2534, 2545), (2548, 2553),
      (2556, 2556), (2565, 2570), (2575, 2576), (2579, 2600), (2602, 2608), (2610, 2611),
      (2613, 2614), (2616, 2617), (2649, 2652), (2654, 2654), (2662, 2671), (2674, 2676),
      (2693, 2701), (2703, 2705), (2707, 2728), (2730, 2736), (2738, 2739), (2741, 2745),
      (2749, 2749), (2768, 2768), (2784, 2785), (2790, 2799), (2809, 2809), (2821, 2828),
      (2831, 2832), (2835, 2856), (2858, 2864), (2866, 2867), (2869, 2873), (2877, 2877),
      (2908, 2909), (2911, 2913), (2918, 2927), (2929, 2935), (2947, 2947), (2949, 2954),
      (2958, 2960), (2962, 2965), (2969, 2970), (2972, 2972), (2974, 2975), (2979, 2980),
      (2984, 2986), (2990, 3001), (3024, 3024), (3046, 3058), (3077, 3084), (3086, 3088),
      (3090, 3112), (3114, 3129), (3133, 3133), (3160, 3162), (3165, 3165), (3168, 3169),
      (3174, 3183), (3192, 3198), (3200, 3200), (3205, 3212), (3214, 3216), (3218, 3240),
      (3242, 3251), (3253, 3257), (3261, 3261), (3293, 3294), (3296, 3297), (3302, 3311),
      (3313, 3314), (3332, 3340), (3342, 3344), (3346, 3386), (3389, 3389), (3406, 3406),
      (3412, 3414), (3416, 3425), (3430, 3448), (3450, 3455), (3461, 3478), (3482, 3505),
      (3507, 3515), (3517, 3517), (3520, 3526), (3558, 3567), (3585, 3632), (3634, 3635),
      (3648, 3654), (3664, 3673), (3713, 3714), (3716, 3716), (3718, 3722), (3724, 3747),
      (3749, 3749), (3751, 3760), (3762, 3763), (3773, 3773), (3776, 3780), (3782, 3782),
      (3792, 3801), (3804, 3807), (3840, 3840), (3872, 3891), (3904, 3911), (3913, 3948),
      (3976, 3980), (4096, 4138), (4159, 4169), (4176, 4181), (4186, 4189), (4193, 4193),
      (4197, 4198), (4206, 4208), (4213, 4225), (4238, 4238), (4240, 4249), (4256, 4293),
      (4295, 4295), (4301, 4301), (4304, 4346), (4348, 4680), (4682, 4685), (4688, 4694),
      (4696, 4696), (4698, 4701), (4704, 4744), (4746, 4749), (4752, 4784), (4786, 4789),
      (4792, 4798), (4800, 4800), (4802, 4805), (4808, 4822), (4824, 4880), (4882, 4885),
      (4888, 4954), (4969, 4988), (4992, 5007), (5024, 5109), (5112, 5117), (5121, 5740),
      (5743, 5759), (5761, 5786), (5792, 5866), (5870, 5880), (5888, 5905), (5919, 5937),
      (5952, 5969), (5984, 5996), (5998, 6000), (6016, 6067), (6103, 6103), (6108, 6108),
      (6112, 6121), (6128, 6137), (6160, 6169), (6176, 6264), (6272, 6276), (6279, 6312),
      (6314, 6314), (6320, 6389), (6400, 6430), (6470, 6509), (6512, 6516), (6528, 6571),
      (6576, 6601), (6608, 6618), (6656, 6678), (6688, 6740), (6784, 6793), (6800, 6809),
      (6823, 6823), (6917, 6963), (6981, 6988), (6992, 7001), (7043, 7072), (7086, 7141),
      (7168, 7203), (7232, 7241), (7245, 7293), (7296, 7304), (7312, 7354), (7357, 7359),
      (7401, 7404), (7406, 7411), (7413, 7414), (7418, 7418), (7424, 7615), (7680, 7957),
      (7960, 7965), (7968, 8005), (8008, 8013), (8016, 8023), (8025, 8025), (8027, 8027),
      (8029, 8029), (8031, 8061), (8064, 8116), (8118, 8124), (8126, 8126), (8130, 8132),
      (8134, 8140), (8144, 8147), (8150, 8155), (8160, 8172), (8178, 8180), (8182, 8188),
      (8304, 8305), (8308, 8313), (8319, 8329), (8336, 8348), (8450, 8450), (8455, 8455),
      (8458, 8467), (8469, 8469), (8473, 8477), (8484, 8484), (8486, 8486), (8488, 8488),
      (8490, 8493), (8495, 8505), (8508, 8511), (8517, 8521), (8526, 8526), (8528, 8585),
      (9312, 9371), (9450, 9471), (10102, 10131), (11264, 11492), (11499, 11502),
      (11506, 11507), (11517, 11517), (11520, 11557), (11559, 11559), (11565, 11565),
      (11568, 11623), (11631, 11631), (11648, 11670), (11680, 11686), (11688, 11694),
      (11696, 11702), (11704, 11710), (11712, 11718), (11720, 11726), (11728, 11734),
      (11736, 11742), (11823, 11823), (12293, 12295), (12321, 12329), (12337, 12341),
      (12344, 12348), (12353, 12438), (12445, 12447), (12449, 12538), (12540, 12543),
      (12549, 12591), (12593, 12686), (12690, 12693), (12704, 12735), (12784, 12799),
      (12832, 12841), (12872, 12879), (12881, 12895), (12928, 12937), (12977, 12991),
      (13312, 19903), (19968, 42124), (42192, 42237), (42240, 42508), (42512, 42539),
      (42560, 42606), (42623, 42653), (42656, 42735), (42775, 42783), (42786, 42888),
      (42891, 42954), (42960, 42961), (42963, 42963), (42965, 42969), (42994, 43009),
      (43011, 43013), (43015, 43018), (43020, 43042), (43056, 43061), (43072, 43123),
      (43138, 43187), (43216, 43225), (43250, 43255), (43259, 43259), (43261, 43262),
      (43264, 43301), (43312, 43334), (43360, 43388), (43396, 43442), (43471, 43481),
      (43488, 43492), (43494, 43518), (43520, 43560), (43584, 43586), (43588, 43595),
      (43600, 43609), (43616, 43638), (43642, 43642), (43646, 43695), (43697, 43697),
      (43701, 43702), (43705, 43709), (43712, 43712), (43714, 43714), (43739, 43741),
      (43744, 43754), (43762, 43764), (43777, 43782), (43785, 43790), (43793, 43798),
      (43808, 43814), (43816, 43822), (43824, 43866), (43868, 43881), (43888, 44002),
      (44016, 44025), (44032, 55203), (55216, 55238), (55243, 55291), (63744, 64109),
      (64112, 64217), (64256, 64262), (64275, 64279), (64285, 64285), (64287, 64296),
      (64298, 64310), (64312, 64316), (64318, 64318), (64320, 64321), (64323, 64324),
      (64326, 64433), (64467, 64829), (64848, 64911), (64914, 64967), (65008, 65019),
      (65136, 65140), (65142, 65276), (65296, 65305), (65313, 65338), (65345, 65370),
      (65382, 65470), (65474, 65479), (65482, 65487), (65490, 65495), (65498, 65500),
      (65536, 65547), (65549, 65574), (65576, 65594), (65596, 65597), (65599, 65613),
      (65616, 65629), (65664, 65786), (65799, 65843), (65856, 65912), (65930, 65931),
      (66176, 66204), (66208, 66256), (66273, 66299), (66304, 66339), (66349, 66378),
      (66384, 66421), (66432, 66461), (66464, 66499), (66504, 66511), (66513, 66517),
      (66560, 66717), (66720, 66729), (66736, 66771), (66776, 66811), (66816, 66855),
      (66864, 66915), (66928, 66938), (66940, 66954), (66956, 66962), (66964, 66965),
      (66967, 66977), (66979, 66993), (66995, 67001), (67003, 67004), (67072, 67382),
      (67392, 67413), (67424, 67431), (67456, 67461), (67463, 67504), (67506, 67514),
      (67584, 67589), (67592, 67592), (67594, 67637), (67639, 67640), (67644, 67644),
      (67647, 67669), (67672, 67702), (67705, 67742), (67751, 67759), (67808, 67826),
      (67828, 67829), (67835, 67867), (67872, 67897), (67968, 68023), (68028, 68047),
      (68050, 68096), (68112, 68115), (68117, 68119), (68121, 68149), (68160, 68168),
      (68192, 68222), (68224, 68255), (68288, 68295), (68297, 68324), (68331, 68335),
      (68352, 68405), (68416, 68437), (68440, 68466), (68472, 68497), (68521, 68527),
      (68608, 68680), (68736, 68786), (68800, 68850), (68858, 68899), (68912, 68921),
      (69216, 69246), (69248, 69289), (69296, 69297), (69376, 69415), (69424, 69445),
      (69457, 69460), (69488, 69505), (69552, 69579), (69600, 69622), (69635, 69687),
      (69714, 69743), (69745, 69746), (69749, 69749), (69763, 69807), (69840, 69864),
      (69872, 69881), (69891, 69926), (69942, 69951), (69956, 69956), (69959, 69959),
      (69968, 70002), (70006, 70006), (70019, 70066), (70081, 70084), (70096, 70106),
      (70108, 70108), (70113, 70132), (70144, 70161), (70163, 70187), (70272, 70278),
      (70280, 70280), (70282, 70285), (70287, 70301), (70303, 70312), (70320, 70366),
      (70384, 70393), (70405, 70412), (70415, 70416), (70419, 70440), (70442, 70448),
      (70450, 70451), (70453, 70457), (70461, 70461), (70480, 70480), (70493, 70497),
      (70656, 70708), (70727, 70730), (70736, 70745), (70751, 70753), (70784, 70831),
      (70852, 70853), (70855, 70855), (70864, 70873), (71040, 71086), (71128, 71131),
      (71168, 71215), (71236, 71236), (71248, 71257), (71296, 71338), (71352, 71352),
      (71360, 71369), (71424, 71450), (71472, 71483), (71488, 71494), (71680, 71723),
      (71840, 71922), (71935, 71942), (71945, 71945), (71948, 71955), (71957, 71958),
      (71960, 71983), (71999, 71999), (72001, 72001), (72016, 72025), (72096, 72103),
      (72106, 72144), (72161, 72161), (72163, 72163), (72192, 72192), (72203, 72242),
      (72250, 72250), (72272, 72272), (72284, 72329), (72349, 72349), (72368, 72440),
      (72704, 72712), (72714, 72750), (72768, 72768), (72784, 72812), (72818, 72847),
      (72960, 72966), (72968, 72969), (72971, 73008), (73030, 73030), (73040, 73049),
      (73056, 73061), (73063, 73064), (73066, 73097), (73112, 73112), (73120, 73129),
      (73440, 73458), (73648, 73648), (73664, 73684), (73728, 74649), (74752, 74862),
      (74880, 75075), (77712, 77808), (77824, 78894), (82944, 83526), (92160, 92728),
      (92736, 92766), (92768, 92777), (92784, 92862), (92864, 92873), (92880, 92909),
      (92928, 92975), (92992, 92995), (93008, 93017), (93019, 93025), (93027, 93047),
      (93053, 93071), (93760, 93846), (93952, 94026), (94032, 94032), (94099, 94111),
      (94176, 94177), (94179, 94179), (94208, 100343), (100352, 101589),
      (101632, 101640), (110576, 110579), (110581, 110587), (110589, 110590),
      (110592, 110882), (110928, 110930), (110948, 110951), (110960, 111355),
      (113664, 113770), (113776, 113788), (113792, 113800), (113808, 113817),
      (119520, 119539), (119648, 119672), (119808, 119892), (119894, 119964),
      (119966, 119967), (119970, 119970), (119973, 119974), (119977, 119980),
      (119982, 119993), (119995, 119995), (119997, 120003), (120005, 120069),
      (120071, 120074), (120077, 120084), (120086, 120092), (120094, 120121),
      (120123, 120126), (120128, 120132), (120134, 120134), (120138, 120144),
      (120146, 120485), (120488, 120512), (120514, 120538), (120540, 120570),
      (120572, 120596), (120598, 120628), (120630, 120654), (120656, 120686),
      (120688, 120712), (120714, 120744), (120746, 120770), (120772, 120779),
      (120782, 120831), (122624, 122654), (123136, 123180), (123191, 123197),
      (123200, 123209), (123214, 123214), (123536, 123565), (123584, 123627),
      (123632, 123641), (124896, 124902), (124904, 124907), (124909, 124910),
      (124912, 124926), (124928, 125124), (125127, 125135), (125184, 125251),
      (125259, 125259), (125264, 125273), (126065, 126123), (126125, 126127),
      (126129, 126132), (126209, 126253), (126255, 126269), (126464, 126467),
      (126469, 126495), (126497, 126498), (126500, 126500), (126503, 126503),
      (126505, 126514), (126516, 126519), (126521, 126521), (126523, 126523),
      (126530, 126530), (126535, 126535), (126537, 126537), (126539, 126539),
      (126541, 126543), (126545, 126546), (126548, 126548), (126551, 126551),
      (126553, 126553), (126555, 126555), (126557, 126557), (126559, 126559),
      (126561, 126562), (126564, 126564), (126567, 126570), (126572, 126578),
      (126580, 126583), (126585, 126588), (126590, 126590), (126592, 126601),
      (126603, 126619), (126625, 126627), (126629, 126633), (126635, 126651),
      (127232, 127244), (130032, 130041), (131072, 173791), (173824, 177976),
      (177984, 178205), (178208, 183969), (183984, 191456), (194560, 195101),
      (196608, 201546)]"

definition is_digit :: "nat \<Rightarrow> bool" where
  "is_digit c \<longleftrightarrow>
     (if c < 1632 then 48 \<le> c \<and> c \<le> 57 else in_ranges digit_ranges_high c)"

definition is_alnum :: "nat \<Rightarrow> bool" where
  "is_alnum c \<longleftrightarrow>
     (if c < 128 then (48 \<le> c \<and> c \<le> 57) \<or> (65 \<le> c \<and> c \<le> 90) \<or> (97 \<le> c \<and> c \<le> 122)
      else if c < 1424 then in_ranges alnum_ranges_low c
      else if c \<le> 1535 then (1488 \<le> c \<and> c \<le> 1514) \<or> (1519 \<le> c \<and> c \<le> 1522)
      else in_ranges alnum_ranges_high c)"

definition is_word :: "nat \<Rightarrow> bool" where
  "is_word c \<longleftrightarrow> is_alnum c \<or> c = 95"

text \<open>The value of a decimal digit, as \<open>int\<close> reads it.\<close>

definition digit_value :: "nat \<Rightarrow> nat option" where
  "digit_value c =
     (if c < 1632 then (if 48 \<le> c \<and> c \<le> 57 then Some (c - 48) else None)
      else map_option (\<lambda>(lo, hi). (c - lo) mod 10)
             (find (\<lambda>(lo, hi). lo \<le> c \<and> c \<le> hi) digit_ranges_high))"

section \<open>Python values\<close>

text \<open>
  A Python \<open>str\<close> is a sequence of Unicode code points; it is modelled as a list of
  natural numbers, so that \<open>len\<close>, indexing and slicing count what Python counts.
  \<open>asc\<close> turns an ASCII literal into such a string.
\<close>

type_synonym ustr = "nat list"

definition asc :: "string \<Rightarrow> ustr" where
  "asc s = map of_char s"

text \<open>
  \<open>str.isspace\<close>, which is also the class \<open>\s\<close> of \<open>re\<close> on \<open>str\<close> patterns:
  TAB, LF, VT, FF, CR, the separators U+001C..U+001F, SPACE, U+0085, U+00A0, U+1680,
  U+2000..U+200A, U+2028, U+2029, U+202F, U+205F and U+3000.
\<close>

definition is_space :: "nat \<Rightarrow> bool" where
  "is_space c \<longleftrightarrow>
     (9 \<le> c \<and> c \<le> 13) \<or> (28 \<le> c \<and> c \<le> 32) \<or> c = 133 \<or> c = 160 \<or> c = 5760 \<or>
     (8192 \<le> c \<and> c \<le> 8202) \<or> c = 8232 \<or> c = 8233 \<or> c = 8239 \<or> c = 8287 \<or> c = 12288"

text \<open>\<open>s.strip()\<close>: leading and trailing white space removed.\<close>

definition lstrip :: "ustr \<Rightarrow> ustr" where
  "lstrip s = dropWhile is_space s"

definition rstrip :: "ustr \<Rightarrow> ustr" where
  "rstrip s = rev (dropWhile is_space (rev s))"

definition strip :: "ustr \<Rightarrow> ustr" where
  "strip s = rstrip (lstrip s)"

text \<open>
  The values \<open>json.loads\<close> produces. A float is one of the three special values or
  finite; a finite double is a rational number, and \<open>int\<close> of it depends on that number
  alone, so nothing of the binary format is needed.
\<close>

datatype pyfloat = Finite rat | PosInf | NegInf | NaN

datatype pyval =
    PNone
  | PBool bool
  | PInt int
  | PFloat pyfloat
  | PStr ustr
  | PList "pyval list"
  | PDict "(ustr \<times> pyval) list"

datatype pyexn =
  ValueError | TypeError | OverflowError | AttributeError | KeyError | IndexError

text \<open>Truth value of an object, as \<open>not x\<close> and \<open>if x\<close> test it.\<close>

fun truthy :: "pyval \<Rightarrow> bool" where
  "truthy PNone = False"
| "truthy (PBool b) = b"
| "truthy (PInt n) = (n \<noteq> 0)"
| "truthy (PFloat (Finite q)) = (q \<noteq> 0)"
| "truthy (PFloat _) = True"
| "truthy (PStr s) = (s \<noteq> [])"
| "truthy (PList xs) = (xs \<noteq> [])"
| "truthy (PDict kvs) = (kvs \<noteq> [])"

text \<open>
  \<open>int(s)\<close> for a string in base 10: white space around, an optional sign, then decimal
  digits of any script, in which single underscores may separate digits. The white space
  \<open>int\<close> skips is that of \<open>str.isspace\<close> without the separators U+001C..U+001F. A
  string of more than 4300 digits is refused (the limit of CPython 3.11 on the conversion
  of strings); every refusal is a ValueError.
\<close>

definition is_int_space :: "nat \<Rightarrow> bool" where
  "is_int_space c \<longleftrightarrow> is_space c \<and> \<not> (28 \<le> c \<and> c \<le> 31)"

definition int_strip :: "ustr \<Rightarrow> ustr" where
  "int_strip s = rev (dropWhile is_int_space (rev (dropWhile is_int_space s)))"

text \<open>
  The digits after the first one: \<open>acc\<close> is the value and \<open>n\<close> the number of digits
  read so far.
\<close>

fun parse_digits :: "nat \<Rightarrow> nat \<Rightarrow> ustr \<Rightarrow> (nat \<times> nat) option" where
  "parse_digits acc n [] = Some (acc, n)"
| "parse_digits acc n [c] = map_option (\<lambda>v. (10 * acc + v, Suc n)) (digit_value c)"
| "parse_digits acc n (c # d # ds) =
     (case digit_value c of
        Some v \<Rightarrow> parse_digits (10 * acc + v) (Suc n) (d # ds)
      | None \<Rightarrow>
          if c = 95 then
            (case digit_value d of
               Some v \<Rightarrow> parse_digits (10 * acc + v) (Suc n) ds
             | None \<Rightarrow> None)
          else None)"

definition parse_unsigned :: "ustr \<Rightarrow> nat option" where
  "parse_unsigned s =
     (case s of
        [] \<Rightarrow> None
      | c # cs \<Rightarrow>
          (case digit_value c of
             None \<Rightarrow> None
           | Some v \<Rightarrow>
               (case parse_digits v 1 cs of
                  None \<Rightarrow> None
                | Some (k, n) \<Rightarrow> if n \<le> 4300 then Some k else None)))"

definition int_of_str :: "ustr \<Rightarrow> int option" where
  "int_of_str s =
     (case int_strip s of
        [] \<Rightarrow> None
      | c # cs \<Rightarrow>
          if c = 45 then map_option (\<lambda>n. - int n) (parse_unsigned cs)
          else if c = 43 then map_option int (parse_unsigned cs)
          else map_option int (parse_unsigned (c # cs)))"

text \<open>\<open>int(x)\<close> of a finite float truncates towards zero.\<close>

definition trunc :: "rat \<Rightarrow> int" where
  "trunc q = (if 0 \<le> q then \<lfloor>q\<rfloor> else \<lceil>q\<rceil>)"

text \<open>
  The builtin \<open>int\<close>: a NaN gives ValueError, an infinite float OverflowError, and
  \<open>None\<close>, a list or a dict TypeError.
\<close>

fun py_int :: "pyval \<Rightarrow> pyexn + int" where
  "py_int (PInt n) = Inr n"
| "py_int (PBool b) = Inr (if b then 1 else 0)"
| "py_int (PFloat (Finite q)) = Inr (trunc q)"
| "py_int (PFloat NaN) = Inl ValueError"
| "py_int (PFloat PosInf) = Inl OverflowError"
| "py_int (PFloat NegInf) = Inl OverflowError"
| "py_int (PStr s) = (case int_of_str s of Some n \<Rightarrow> Inr n | None \<Rightarrow> Inl ValueError)"
| "py_int PNone = Inl TypeError"
| "py_int (PList xs) = Inl TypeError"
| "py_int (PDict kvs) = Inl TypeError"

text \<open>\<open>len(x)\<close>: defined for strings, lists and dicts.\<close>

fun py_len :: "pyval \<Rightarrow> pyexn + nat" where
  "py_len (PStr s) = Inr (length s)"
| "py_len (PList xs) = Inr (length xs)"
| "py_len (PDict kvs) = Inr (length kvs)"
| "py_len PNone = Inl TypeError"
| "py_len (PBool b) = Inl TypeError"
| "py_len (PInt n) = Inl TypeError"
| "py_len (PFloat x) = Inl TypeError"

text \<open>
  The items a \<open>for\<close> loop draws from a value: the elements of a list, the characters
  of a string, the keys of a dict; the other values are not iterable.
\<close>

fun py_iter :: "pyval \<Rightarrow> pyexn + pyval list" where
  "py_iter (PList xs) = Inr xs"
| "py_iter (PStr s) = Inr (map (\<lambda>c. PStr [c]) s)"
| "py_iter (PDict kvs) = Inr (map (\<lambda>kv. PStr (fst kv)) kvs)"
| "py_iter PNone = Inl TypeError"
| "py_iter (PBool b) = Inl TypeError"
| "py_iter (PInt n) = Inl TypeError"
| "py_iter (PFloat x) = Inl TypeError"

text \<open>
  \<open>x.get(k, default)\<close>: a dict answers (its keys are distinct, being those of a parsed
  JSON object); no other JSON value has the attribute \<open>get\<close>.
\<close>

fun py_get :: "pyval \<Rightarrow> ustr \<Rightarrow> pyval \<Rightarrow> pyexn + pyval" where
  "py_get (PDict kvs) k dflt = Inr (case map_of kvs k of None \<Rightarrow> dflt | Some v \<Rightarrow> v)"
| "py_get PNone k dflt = Inl AttributeError"
| "py_get (PBool b) k dflt = Inl AttributeError"
| "py_get (PInt n) k dflt = Inl AttributeError"
| "py_get (PFloat x) k dflt = Inl AttributeError"
| "py_get (PStr s) k dflt = Inl AttributeError"
| "py_get (PList xs) k dflt = Inl AttributeError"

section \<open>The risk score calculator (ai-analyzer.py)\<close>

text \<open>
  \<open>analysis_json\<close> is the dict that \<open>parse_json_response\<close> or
  \<open>create_fallback_response\<close> returns. Its values come from the reasoning service and
  are arbitrary JSON: \<open>is_contract\<close> and \<open>issues\<close> are values of any kind (\<open>None\<close>: the
  key is missing), and an issue is whatever the list holds. The two score fields are
  written and never read. The remaining keys are carried along.
\<close>

datatype category =
  financial_terms | tenant_rights | termination_clauses | liability_repairs | legal_compliance

text \<open>
  An entry of \<open>score_breakdown\<close>: the short-circuit branch writes the key \<open>score\<close> only,
  the normal path also \<open>penalties\<close> and \<open>max\<close>.
\<close>

record breakdown_entry =
  score :: int
  penalties :: "int option"
  max_points :: "int option"

record analysis =
  is_contract :: "pyval option"
  issues :: "pyval option"
  overall_risk_score :: "int option"
  score_breakdown :: "(category \<Rightarrow> breakdown_entry) option"
  other_fields :: "(ustr \<times> pyval) list"

text \<open>\<open>prefix_map\<close>, keyed by a one-character string.\<close>

definition prefix_map :: "ustr \<Rightarrow> category option" where
  "prefix_map k =
     (if k = asc ''F'' then Some financial_terms
      else if k = asc ''T'' then Some tenant_rights
      else if k = asc ''E'' then Some termination_clauses
      else if k = asc ''L'' then Some liability_repairs
      else if k = asc ''C'' then Some legal_compliance
      else None)"

text \<open>
  \<open>s.upper()\<close>, character by character. ASCII letters are mapped exactly. Beyond ASCII
  \<open>str.upper\<close> may return other characters, never an ASCII letter among the keys of
  \<open>prefix_map\<close>; such characters are left as they are here.
\<close>

definition upper_char :: "nat \<Rightarrow> ustr" where
  "upper_char c = (if 97 \<le> c \<and> c \<le> 122 then [c - 32] else [c])"

definition py_upper :: "ustr \<Rightarrow> ustr" where
  "py_upper s = concat (map upper_char s)"

text \<open>
  The \<open>try\<close> block around \<open>int(...)\<close>: ValueError and TypeError give 0, any other
  exception leaves the function.
\<close>

definition try_int :: "pyval \<Rightarrow> pyexn + int" where
  "try_int v =
     (case py_int v of
        Inr n \<Rightarrow> Inr n
      | Inl ValueError \<Rightarrow> Inr 0
      | Inl TypeError \<Rightarrow> Inr 0
      | Inl e \<Rightarrow> Inl e)"

text \<open>
  The test \<open>rule_id and len(rule_id) > 0 and penalty > 0\<close>, evaluated from the left: a
  false \<open>rule_id\<close> ends it, otherwise \<open>len\<close> is called, which raises TypeError on a
  number or on \<open>True\<close>.
\<close>

definition valid_issue :: "pyval \<Rightarrow> int \<Rightarrow> pyexn + bool" where
  "valid_issue rule_id penalty =
     (if \<not> truthy rule_id then Inr False
      else (case py_len rule_id of Inl e \<Rightarrow> Inl e | Inr n \<Rightarrow> Inr (0 < n \<and> 0 < penalty)))"

text \<open>
  \<open>rule_id[0].upper()\<close>: the first character of a string; the first element of a list,
  which has \<open>upper\<close> only when it is a string; a dict has no key 0. The cases of an empty
  or unsized value do not arise after the test above.
\<close>

fun rule_prefix :: "pyval \<Rightarrow> pyexn + ustr" where
  "rule_prefix (PStr (c # cs)) = Inr (upper_char c)"
| "rule_prefix (PStr []) = Inl IndexError"
| "rule_prefix (PList (PStr t # xs)) = Inr (py_upper t)"
| "rule_prefix (PList (x # xs)) = Inl AttributeError"
| "rule_prefix (PList []) = Inl IndexError"
| "rule_prefix (PDict kvs) = Inl KeyError"
| "rule_prefix PNone = Inl TypeError"
| "rule_prefix (PBool b) = Inl TypeError"
| "rule_prefix (PInt n) = Inl TypeError"
| "rule_prefix (PFloat x) = Inl TypeError"

text \<open>
  What the body of the loop finds out about one issue before it touches the scores:
  the issue is dropped, or it is kept with its penalty and with the category that its
  prefix selects, if any.
\<close>

datatype verdict = Dropped | Kept "category option" int

definition examine :: "pyval \<Rightarrow> pyexn + verdict" where
  "examine issue =
     (case py_get issue (asc ''rule_id'') (PStr []) of
        Inl e \<Rightarrow> Inl e
      | Inr rule_id \<Rightarrow>
          (case py_get issue (asc ''penalty_points'') (PInt 0) of
             Inl e \<Rightarrow> Inl e
           | Inr points \<Rightarrow>
               (case try_int points of
                  Inl e \<Rightarrow> Inl e
                | Inr penalty \<Rightarrow>
                    (case valid_issue rule_id penalty of
                       Inl e \<Rightarrow> Inl e
                     | Inr False \<Rightarrow> Inr Dropped
                     | Inr True \<Rightarrow>
                         (case rule_prefix rule_id of
                            Inl e \<Rightarrow> Inl e
                          | Inr prefix \<Rightarrow> Inr (Kept (prefix_map prefix) penalty))))))"

type_synonym score_state = "(category \<Rightarrow> int) \<times> (category \<Rightarrow> int) \<times> pyval list"

text \<open>
  The loop over the issues; the state is \<open>category_scores\<close>, \<open>category_penalties_sum\<close>
  and \<open>filtered_issues\<close>.
\<close>

fun score_loop :: "pyval list \<Rightarrow> score_state \<Rightarrow> pyexn + score_state" where
  "score_loop [] st = Inr st"
| "score_loop (issue # rest) (category_scores, category_penalties_sum, filtered_issues) =
     (case examine issue of
        Inl e \<Rightarrow> Inl e
      | Inr Dropped \<Rightarrow>
          score_loop rest (category_scores, category_penalties_sum, filtered_issues)
      | Inr (Kept None penalty) \<Rightarrow>
          score_loop rest (category_scores, category_penalties_sum, filtered_issues @ [issue])
      | Inr (Kept (Some cat) penalty) \<Rightarrow>
          score_loop rest
            (category_scores(cat := max 0 (category_scores cat - penalty)),
             category_penalties_sum(cat := category_penalties_sum cat + penalty),
             filtered_issues @ [issue]))"

definition sum_values :: "(category \<Rightarrow> int) \<Rightarrow> int" where
  "sum_values f =
     f financial_terms + f tenant_rights + f termination_clauses
       + f liability_repairs + f legal_compliance"

text \<open>
  The function assigns to keys of its argument and returns it; the model returns the
  updated dict.
\<close>

definition recalculate_scores :: "analysis \<Rightarrow> pyexn + analysis" where
  "recalculate_scores analysis_json =
     (if \<not> truthy (case is_contract analysis_json of None \<Rightarrow> PBool True | Some v \<Rightarrow> v) then
        Inr (analysis_json
          \<lparr> overall_risk_score := Some 0,
            score_breakdown :=
              Some (\<lambda>cat. \<lparr> score = 0, penalties = None, max_points = None \<rparr>) \<rparr>)
      else
        (case py_iter (case issues analysis_json of None \<Rightarrow> PList [] | Some v \<Rightarrow> v) of
           Inl e \<Rightarrow> Inl e
         | Inr items \<Rightarrow>
             (case score_loop items ((\<lambda>cat. 20), (\<lambda>cat. 0), []) of
                Inl e \<Rightarrow> Inl e
              | Inr (category_scores, category_penalties_sum, filtered_issues) \<Rightarrow>
                  Inr (analysis_json
                    \<lparr> issues := Some (PList filtered_issues),
                      score_breakdown :=
                        Some (\<lambda>cat. \<lparr> score = category_scores cat,
                                       penalties = Some (category_penalties_sum cat),
                                       max_points = Some 20 \<rparr>),
                      overall_risk_score := Some (sum_values category_scores) \<rparr>))))"

text \<open>
  The vocabulary of the claims about the calculator: whether the result is flagged as a
  contract, the items the loop runs over, whether the loop body gets through an issue
  without raising, whether an
  issue is accepted, its penalty, the category it selects, and the sum of the penalties
  of the accepted issues of a category.
\<close>

definition flagged_contract :: "analysis \<Rightarrow> bool" where
  "flagged_contract a = truthy (case is_contract a of None \<Rightarrow> PBool True | Some v \<Rightarrow> v)"

definition issue_items :: "analysis \<Rightarrow> pyexn + pyval list" where
  "issue_items a = py_iter (case issues a of None \<Rightarrow> PList [] | Some v \<Rightarrow> v)"

definition converts :: "pyval \<Rightarrow> bool" where
  "converts i = (case examine i of Inr v \<Rightarrow> True | Inl e \<Rightarrow> False)"

definition accepted :: "pyval \<Rightarrow> bool" where
  "accepted i = (case examine i of Inr (Kept c n) \<Rightarrow> True | Inr Dropped \<Rightarrow> False | Inl e \<Rightarrow> False)"

definition penalty_value :: "pyval \<Rightarrow> int" where
  "penalty_value i = (case examine i of Inr (Kept c n) \<Rightarrow> n | Inr Dropped \<Rightarrow> 0 | Inl e \<Rightarrow> 0)"

definition issue_category :: "pyval \<Rightarrow> category option" where
  "issue_category i =
     (case examine i of Inr (Kept c n) \<Rightarrow> c | Inr Dropped \<Rightarrow> None | Inl e \<Rightarrow> None)"

definition category_penalty :: "category \<Rightarrow> pyval list \<Rightarrow> int" where
  "category_penalty cat l =
     sum_list (map penalty_value (filter (\<lambda>i. accepted i \<and> issue_category i = Some cat) l))"

text \<open>The part of a result that carries the scores.\<close>

definition scores_of :: "analysis \<Rightarrow> int option \<times> (category \<Rightarrow> breakdown_entry) option" where
  "scores_of r = (overall_risk_score r, score_breakdown r)"

text \<open>An issue with a string \<open>rule_id\<close>, and a result with a list of issues.\<close>

definition mk_issue :: "string \<Rightarrow> pyval \<Rightarrow> pyval" where
  "mk_issue r p = PDict [(asc ''rule_id'', PStr (asc r)), (asc ''penalty_points'', p)]"

definition mk_analysis :: "bool \<Rightarrow> pyval list \<Rightarrow> analysis" where
  "mk_analysis c l =
     \<lparr> is_contract = Some (PBool c), issues = Some (PList l), overall_risk_score = None,
       score_breakdown = None, other_fields = [] \<rparr>"

section \<open>Regular expressions of the \<open>re\<close> module\<close>

text \<open>
  A character class is a list of items: a character, a range, or one of the escapes
  \<open>\d\<close>, \<open>\w\<close>, \<open>\s\<close>, \<open>\W\<close>, \<open>\S\<close>; \<open>NotNL\<close> is the dot.
\<close>

datatype citem = Ch nat | Rg nat nat | Digit | Word | Space | NotWord | NotSpace | NotNL

fun in_item :: "citem \<Rightarrow> nat \<Rightarrow> bool" where
  "in_item (Ch a) c = (c = a)"
| "in_item (Rg a b) c = (a \<le> c \<and> c \<le> b)"
| "in_item Digit c = is_digit c"
| "in_item Word c = is_word c"
| "in_item Space c = is_space c"
| "in_item NotWord c = (\<not> is_word c)"
| "in_item NotSpace c = (\<not> is_space c)"
| "in_item NotNL c = (c \<noteq> 10)"

definition in_class :: "citem list \<Rightarrow> nat \<Rightarrow> bool" where
  "in_class cls c = list_ex (\<lambda>i. in_item i c) cls"

text \<open>
  The patterns of the program use literals, classes, greedy repetition of a class
  (\<open>?\<close>, \<open>*\<close>, \<open>+\<close>, \<open>{m,n}\<close>), sequence, alternation, the anchors \<open>^\<close>, \<open>$\<close> and
  \<open>\b\<close>, a look-behind of one character, and look-aheads. \<open>LitI\<close> is a literal under
  the flag \<open>(?i)\<close>, given in lower case.
\<close>

datatype regex =
    Lit ustr
  | LitI ustr
  | Cls "citem list"
  | Rep "citem list" nat "nat option"
  | Seq regex regex
  | Alt regex regex
  | Bol
  | Eol
  | WordB
  | Behind "citem list"
  | Ahead regex
  | NotAhead regex

fun seqs :: "regex list \<Rightarrow> regex" where
  "seqs [] = Lit []"
| "seqs [r] = r"
| "seqs (r # rs) = Seq r (seqs rs)"

fun alts :: "regex list \<Rightarrow> regex" where
  "alts [] = NotAhead (Lit [])"
| "alts [r] = r"
| "alts (r # rs) = Alt r (alts rs)"

text \<open>
  A position in the subject string: the character before it (\<open>None\<close> at the start of the
  string) and the rest of the string.
\<close>

type_synonym mstate = "nat option \<times> ustr"

fun advance :: "nat \<Rightarrow> mstate \<Rightarrow> mstate" where
  "advance 0 st = st"
| "advance (Suc k) (p, []) = (p, [])"
| "advance (Suc k) (p, c # cs) = advance k (Some c, cs)"

text \<open>
  Case folding under \<open>(?i)\<close>, towards the lower-case letters of the pattern: besides the
  ASCII capitals, U+0130 and U+0131 match \<open>i\<close>, U+017F matches \<open>s\<close> and U+212A matches
  \<open>k\<close>.
\<close>

definition fold_case :: "nat \<Rightarrow> nat" where
  "fold_case c =
     (if 65 \<le> c \<and> c \<le> 90 then c + 32
      else if c = 304 \<or> c = 305 then 105
      else if c = 383 then 115
      else if c = 8490 then 107
      else c)"

definition word_before :: "mstate \<Rightarrow> bool" where
  "word_before st = (case fst st of None \<Rightarrow> False | Some c \<Rightarrow> is_word c)"

definition word_after :: "mstate \<Rightarrow> bool" where
  "word_after st = (case snd st of [] \<Rightarrow> False | c # cs \<Rightarrow> is_word c)"

text \<open>
  A greedy repetition of a class, with \<open>m\<close> characters still required and at most
  \<open>n\<close> allowed (\<open>None\<close>: no bound): it first tries to take one more character, and
  offers to stop where it stands once the minimum is reached.
\<close>

fun rep_states :: "citem list \<Rightarrow> nat \<Rightarrow> nat option \<Rightarrow> nat option \<Rightarrow> ustr \<Rightarrow> mstate list" where
  "rep_states cls m n p [] = (if m = 0 then [(p, [])] else [])"
| "rep_states cls m n p (c # cs) =
     (if in_class cls c \<and> n \<noteq> Some 0
      then rep_states cls (m - 1) (map_option (\<lambda>k. k - 1) n) (Some c) cs
      else [])
     @ (if m = 0 then [(p, c # cs)] else [])"

text \<open>
  The backtracking matcher: \<open>mt r st\<close> lists the positions at which a match of \<open>r\<close>
  that starts at \<open>st\<close> can end, in the order in which backtracking tries them (a greedy
  repetition tries the longest run first, an alternation its left branch first). The
  match \<open>re\<close> reports is the first one.
\<close>

primrec mt :: "regex \<Rightarrow> mstate \<Rightarrow> mstate list" where
  "mt (Lit w) st =
     (if take (length w) (snd st) = w then [advance (length w) st] else [])"
| "mt (LitI w) st =
     (if map fold_case (take (length w) (snd st)) = w then [advance (length w) st] else [])"
| "mt (Cls cls) st =
     (case snd st of [] \<Rightarrow> [] | c # cs \<Rightarrow> if in_class cls c then [(Some c, cs)] else [])"
| "mt (Rep cls m n) st = rep_states cls m n (fst st) (snd st)"
| "mt (Seq a b) st = concat (map (mt b) (mt a st))"
| "mt (Alt a b) st = mt a st @ mt b st"
| "mt Bol st = (if fst st = None then [st] else [])"
| "mt Eol st = (if snd st = [] \<or> snd st = [10] then [st] else [])"
| "mt WordB st = (if word_before st \<noteq> word_after st then [st] else [])"
| "mt (Behind cls) st =
     (case fst st of None \<Rightarrow> [] | Some c \<Rightarrow> if in_class cls c then [st] else [])"
| "mt (Ahead r) st = (if mt r st \<noteq> [] then [st] else [])"
| "mt (NotAhead r) st = (if mt r st = [] then [st] else [])"

text \<open>\<open>pattern.match(s)\<close> as a truth value: a match at the start of the string.\<close>

definition re_match :: "regex \<Rightarrow> ustr \<Rightarrow> bool" where
  "re_match r s \<longleftrightarrow> mt r (None, s) \<noteq> []"

text \<open>\<open>pattern.search(s)\<close> as a truth value: a match at some position.\<close>

fun search_st :: "regex \<Rightarrow> nat option \<Rightarrow> ustr \<Rightarrow> bool" where
  "search_st r p [] \<longleftrightarrow> mt r (p, []) \<noteq> []"
| "search_st r p (c # cs) \<longleftrightarrow> mt r (p, c # cs) \<noteq> [] \<or> search_st r (Some c) cs"

definition re_search :: "regex \<Rightarrow> ustr \<Rightarrow> bool" where
  "re_search r s = search_st r None s"

text \<open>
  \<open>pattern.sub(repl, s)\<close>: the leftmost match is replaced and the scan goes on where it
  ended; where nothing matches, one character is copied. (The branch for a match that
  consumes nothing replaces it and copies one character; no pattern of this program
  matches the empty string.)
\<close>

function sub_st :: "regex \<Rightarrow> ustr \<Rightarrow> nat option \<Rightarrow> ustr \<Rightarrow> ustr" where
  "sub_st r repl p [] = (if mt r (p, []) \<noteq> [] then repl else [])"
| "sub_st r repl p (c # cs) =
     (case mt r (p, c # cs) of
        [] \<Rightarrow> c # sub_st r repl (Some c) cs
      | (p', rest') # other \<Rightarrow>
          if length rest' < Suc (length cs) then repl @ sub_st r repl p' rest'
          else repl @ c # sub_st r repl (Some c) cs)"
  by pat_completeness auto
termination
  by (relation "measure (\<lambda>(r, repl, p, rest). length rest)") auto

definition re_sub :: "regex \<Rightarrow> ustr \<Rightarrow> ustr \<Rightarrow> ustr" where
  "re_sub r repl s = sub_st r repl None s"

text \<open>
  \<open>[m.start() for m in pattern.finditer(s)]\<close>: the start indices of the successive
  matches; \<open>i\<close> is the index of the current position.
\<close>

function starts_st :: "regex \<Rightarrow> nat \<Rightarrow> nat option \<Rightarrow> ustr \<Rightarrow> nat list" where
  "starts_st r i p [] = (if mt r (p, []) \<noteq> [] then [i] else [])"
| "starts_st r i p (c # cs) =
     (case mt r (p, c # cs) of
        [] \<Rightarrow> starts_st r (Suc i) (Some c) cs
      | (p', rest') # other \<Rightarrow>
          if length rest' < Suc (length cs)
          then i # starts_st r (i + (Suc (length cs) - length rest')) p' rest'
          else i # starts_st r (Suc i) (Some c) cs)"
  by pat_completeness auto
termination
  by (relation "measure (\<lambda>(r, i, p, rest). length rest)") auto

definition match_starts :: "regex \<Rightarrow> ustr \<Rightarrow> nat list" where
  "match_starts r s = starts_st r 0 None s"

section \<open>The text normalizer (privacy-shield.py)\<close>

subsection \<open>String operations\<close>

text \<open>\<open>w in text\<close> for two strings.\<close>

fun contains :: "ustr \<Rightarrow> ustr \<Rightarrow> bool" where
  "contains w [] \<longleftrightarrow> w = []"
| "contains w (c # cs) \<longleftrightarrow> take (length w) (c # cs) = w \<or> contains w cs"

text \<open>\<open>text.split('\n')\<close> and \<open>'\n'.join(lines)\<close>; the line feed is code point 10.\<close>

fun split_nl :: "ustr \<Rightarrow> ustr list" where
  "split_nl [] = [[]]"
| "split_nl (c # cs) =
     (if c = 10 then [] # split_nl cs
      else (case split_nl cs of [] \<Rightarrow> [[c]] | l # ls \<Rightarrow> (c # l) # ls))"

fun join_nl :: "ustr list \<Rightarrow> ustr" where
  "join_nl [] = []"
| "join_nl [l] = l"
| "join_nl (l # m # ls) = l @ 10 # join_nl (m # ls)"

text \<open>The slice \<open>s[a:b]\<close> for indices that are not negative.\<close>

definition slice :: "ustr \<Rightarrow> nat \<Rightarrow> nat \<Rightarrow> ustr" where
  "slice s a b = take (b - a) (drop a s)"

text \<open>
  \<open>s.lower()\<close>, used only to look for the keywords of \<open>CONTRACT_KEYWORDS\<close> in the
  lower-cased text. The ASCII capitals are mapped here. The keywords consist of Hebrew
  letters, spaces and an apostrophe, which no case mapping produces or changes, so
  whether a keyword occurs does not depend on the mappings left out.
\<close>

definition lower :: "ustr \<Rightarrow> ustr" where
  "lower s = map (\<lambda>c. if 65 \<le> c \<and> c \<le> 90 then c + 32 else c) s"

subsection \<open>Tables\<close>

datatype pii_type = israeli_id | credit_card | phone_mobile | email | bank_account

text \<open>The optional separator \<open>[-\s]?\<close> of the digit patterns.\<close>

definition opt_sep :: regex where
  "opt_sep = Rep [Ch 45, Space] 0 (Some 1)"

definition israeli_id_pattern :: regex where
  "israeli_id_pattern = seqs [WordB, Rep [Rg 48 57] 8 (Some 9), WordB]"

definition credit_card_pattern :: regex where
  "credit_card_pattern =
     seqs [WordB, Rep [Digit] 4 (Some 4), opt_sep, Rep [Digit] 4 (Some 4), opt_sep,
           Rep [Digit] 4 (Some 4), opt_sep, Rep [Digit] 4 (Some 4), WordB]"

definition phone_mobile_pattern :: regex where
  "phone_mobile_pattern =
     seqs [WordB, Lit [48, 53], Cls [Digit], opt_sep, Rep [Digit] 3 (Some 3), opt_sep,
           Rep [Digit] 4 (Some 4), WordB]"

definition email_pattern :: regex where
  "email_pattern =
     seqs [Rep [Rg 97 122, Rg 65 90, Rg 48 57, Ch 46, Ch 95, Ch 37, Ch 43, Ch 45] 1 None,
           Lit [64],
           Rep [Rg 97 122, Rg 65 90, Rg 48 57, Ch 46, Ch 45] 1 None,
           Lit [46],
           Rep [Rg 97 122, Rg 65 90] 2 None]"

definition bank_account_pattern :: regex where
  "bank_account_pattern =
     seqs [WordB, Rep [Digit] 2 (Some 3), opt_sep, Rep [Digit] 3 (Some 3), opt_sep,
           Rep [Digit] 6 (Some 9), WordB]"

text \<open>
  \<open>PII_PATTERNS\<close> in the order of the dict, each with its pattern and its replacement
  (a bracketed Hebrew phrase).
\<close>

definition PII_PATTERNS :: "(pii_type \<times> regex \<times> ustr) list" where
  "PII_PATTERNS =
     [(israeli_id, israeli_id_pattern,
         [91, 1514, 46, 1494, 46, 32, 1492, 1493, 1505, 1514, 1512, 93]),
      (credit_card, credit_card_pattern,
         [91, 1499, 46, 1488, 1513, 1512, 1488, 1497, 32, 1492, 1493, 1505, 1514, 1512, 93]),
      (phone_mobile, phone_mobile_pattern,
         [91, 1504, 1497, 1497, 1491, 32, 1492, 1493, 1505, 1514, 1512, 93]),
      (email, email_pattern,
         [91, 1488, 1497, 1502, 1497, 1497, 1500, 32, 1492, 1493, 1505, 1514, 1512, 93]),
      (bank_account, bank_account_pattern,
         [91, 1495, 1513, 1489, 1493, 1503, 32, 1489, 1504, 1511, 32, 1492, 1493, 1505,
          1514, 1512, 93])]"

definition OCR_NOISE_PATTERNS :: "regex list" where
  "OCR_NOISE_PATTERNS =
     [Seq (LitI (asc ''scanned with camscanner'')) (Rep [NotNL] 0 None),
      LitI (asc ''www.camscanner.com''),
      Cls [Rg 8192 8207],
      Cls [Ch 124, Ch 126, Ch 94, Ch 167, Ch 96, Ch 174, Ch 169, Ch 8482],
      Rep [Ch 95] 3 None]"

definition KEYWORDS_NORMAL :: "ustr list" where
  "KEYWORDS_NORMAL =
     [[1495, 1493, 1494, 1492],
      [1492, 1505, 1499, 1501],
      [1513, 1499, 1497, 1512, 1493, 1514],
      [1502, 1513, 1499, 1497, 1512],
      [1513, 1493, 1499, 1512],
      [1491, 1497, 1512, 1492]]"

definition KEYWORDS_REVERSED :: "ustr list" where
  "KEYWORDS_REVERSED =
     [[1492, 1494, 1493, 1495],
      [1501, 1499, 1505, 1492],
      [1514, 1493, 1512, 1497, 1499, 1513],
      [1512, 1497, 1499, 1513, 1502],
      [1512, 1499, 1493, 1513],
      [1492, 1512, 1497, 1491]]"

definition CONTRACT_KEYWORDS :: "(ustr \<times> int) list" where
  "CONTRACT_KEYWORDS =
     [([1495, 1493, 1494, 1492, 32, 1513, 1499, 1497, 1512, 1493, 1514], 20),
      ([1492, 1505, 1499, 1501, 32, 1513, 1499, 1497, 1512, 1493, 1514], 20),
      ([1492, 1502, 1513, 1499, 1497, 1512], 10),
      ([1502, 1513, 1490, 1497, 1512], 10),
      ([1489, 1506, 1500, 32, 1492, 1491, 1497, 1512, 1492], 10),
      ([1492, 1513, 1493, 1499, 1512], 10),
      ([1492, 1513, 1493, 1489, 1512], 10),
      ([1491, 1502, 1497, 32, 1513, 1499, 1497, 1512, 1493, 1514], 15),
      ([1514, 1513, 1500, 1493, 1501, 32, 1495, 1493, 1491, 1513, 1497], 10),
      ([1514, 1511, 1493, 1508, 1514, 32, 1492, 1513, 1499, 1497, 1512, 1493, 1514], 10),
      ([1514, 1511, 1493, 1508, 1514, 32, 1492, 1488, 1493, 1508, 1510, 1497, 1492], 5),
      ([1508, 1497, 1504, 1493, 1497], 5),
      ([1506, 1512, 1489, 1493, 1514], 5),
      ([1510, 39, 1511, 32, 1489, 1497, 1496, 1495, 1493, 1503], 5),
      ([1489, 1500, 1514, 1497, 32, 1502, 1493, 1490, 1504, 1514], 10)]"

definition SECTION_HEADERS :: "ustr list" where
  "SECTION_HEADERS =
     [[1502, 1489, 1493, 1488],
      [1492, 1493, 1488, 1497, 1500],
      [1500, 1508, 1497, 1499, 1498],
      [1514, 1511, 1493, 1508, 1514, 32, 1492, 1513, 1499, 1497, 1512, 1493, 1514],
      [1514, 1511, 1493, 1508, 1514, 32, 1492, 1488, 1493, 1508, 1510, 1497, 1492],
      [1492, 1488, 1512, 1499, 1514, 32, 1492, 1495, 1493, 1494, 1492],
      [1491, 1502, 1497, 32, 1492, 1513, 1499, 1497, 1512, 1493, 1514],
      [1491, 1502, 1497, 32, 1513, 1499, 1497, 1512, 1493, 1514],
      [1514, 1513, 1500, 1493, 1502, 1497, 1501],
      [1502, 1497, 1505, 1497, 1501, 44, 32, 1488, 1490, 1512, 1493, 1514, 32, 1493, 1514,
       1513, 1500, 1493, 1502, 1497, 1501],
      [1502, 1497, 1505, 1497, 1501, 32, 1493, 1514, 1513, 1500, 1493, 1502, 1497, 1501],
      [1492, 1513, 1497, 1502, 1493, 1513, 32, 1493, 1492, 1495, 1494, 1511, 1492],
      [1492, 1513, 1497, 1502, 1493, 1513, 32, 1489, 1502, 1493, 1513, 1499, 1512],
      [1492, 1495, 1494, 1511, 1514, 32, 1492, 1502, 1493, 1513, 1499, 1512],
      [1488, 1495, 1512, 1497, 1493, 1514, 32, 1500, 1504, 1494, 1511],
      [1488, 1495, 1512, 1497, 1493, 1514],
      [1504, 1494, 1511, 1497, 1501],
      [1508, 1497, 1504, 1493, 1497, 32, 1492, 1502, 1493, 1513, 1499, 1512],
      [1508, 1497, 1504, 1493, 1497, 32, 1492, 1491, 1497, 1512, 1492],
      [1508, 1497, 1504, 1493, 1497],
      [1489, 1496, 1495, 1493, 1504, 1493, 1514],
      [1506, 1512, 1489, 1493, 1497, 1493, 1514],
      [1506, 1512, 1489, 1493, 1514],
      [1489, 1497, 1496, 1495, 1493, 1504, 1493, 1514],
      [1492, 1508, 1512, 1493, 1514],
      [1492, 1508, 1512, 1492, 32, 1497, 1505, 1493, 1491, 1497, 1514],
      [1489, 1497, 1496, 1493, 1500, 32, 1492, 1492, 1505, 1499, 1501],
      [1513, 1493, 1504, 1493, 1514],
      [1492, 1493, 1512, 1488, 1493, 1514, 32, 1499, 1500, 1500, 1497, 1493, 1514],
      [1499, 1500, 1500, 1497],
      [1495, 1514, 1497, 1502, 1493, 1514],
      [1495, 1514, 1497, 1502, 1492]]"

subsection \<open>Direction correction\<close>

text \<open>\<open>sum(1 for word in words if word in text)\<close>: how many of the words occur.\<close>

definition keyword_score :: "ustr list \<Rightarrow> ustr \<Rightarrow> nat" where
  "keyword_score words text = length (filter (\<lambda>word. contains word text) words)"

definition detect_and_fix_direction :: "ustr \<Rightarrow> ustr" where
  "detect_and_fix_direction text =
     (let score_normal = keyword_score KEYWORDS_NORMAL text;
          score_reversed = keyword_score KEYWORDS_REVERSED text
      in if score_reversed > score_normal then join_nl (map rev (split_nl text)) else text)"

text \<open>
  The rule as the specification words it, for comparison: the occurrences of the
  keywords are counted, a keyword that occurs several times counting each time.
\<close>

fun count_occurrences :: "ustr \<Rightarrow> ustr \<Rightarrow> nat" where
  "count_occurrences w [] = 0"
| "count_occurrences w (c # cs) =
     (if take (length w) (c # cs) = w then 1 else 0) + count_occurrences w cs"

definition occurrence_score :: "ustr list \<Rightarrow> ustr \<Rightarrow> nat" where
  "occurrence_score words text = sum_list (map (\<lambda>word. count_occurrences word text) words)"

definition spec_detect_and_fix_direction :: "ustr \<Rightarrow> ustr" where
  "spec_detect_and_fix_direction text =
     (if occurrence_score KEYWORDS_REVERSED text > occurrence_score KEYWORDS_NORMAL text
      then join_nl (map rev (split_nl text)) else text)"

subsection \<open>PII masking and noise cleaning\<close>

fun sanitize_pii_loop ::
  "(pii_type \<times> regex \<times> ustr) list \<Rightarrow> ustr \<Rightarrow> pii_type list \<Rightarrow> ustr \<times> pii_type list" where
  "sanitize_pii_loop [] text pii_found = (text, pii_found)"
| "sanitize_pii_loop ((pii, pattern, replacement) # rest) text pii_found =
     (if re_search pattern text
      then sanitize_pii_loop rest (re_sub pattern replacement text) (pii_found @ [pii])
      else sanitize_pii_loop rest text pii_found)"

definition sanitize_pii :: "ustr \<Rightarrow> ustr \<times> pii_type list" where
  "sanitize_pii text = sanitize_pii_loop PII_PATTERNS text []"

definition clean_ocr_noise :: "ustr \<Rightarrow> ustr" where
  "clean_ocr_noise text =
     (let text1 = foldl (\<lambda>t pattern. re_sub pattern [32] t) text OCR_NOISE_PATTERNS;
          text2 = re_sub (Rep [Ch 32, Ch 9] 1 None) [32] text1;
          text3 = re_sub (seqs [Lit [10], Rep [Space] 0 None, Lit [10], Rep [Space] 0 None,
                                Rep [Ch 10] 1 None]) [10, 10] text2
      in strip text3)"

subsection \<open>Clause segmentation\<close>

definition CLAUSE_NUMBER_PATTERN :: regex where
  "CLAUSE_NUMBER_PATTERN =
     seqs [alts [Bol, Behind [Space], Behind [Ch 10]],
           alts [Rep [Rg 48 57] 1 (Some 2), Cls [Rg 1488 1497]],
           Cls [Ch 46, Ch 41],
           Rep [Space] 1 None,
           NotAhead (seqs [Rep [Rg 48 57, Ch 44] 1 None, Rep [Space] 0 None,
                           alts [seqs [Lit [1513], Rep [Ch 1524, Ch 39] 0 (Some 1), Lit [1495]],
                                 Lit [8362], Lit [1513, 1511, 1500], Lit [1488, 1500, 1507]]]),
           NotAhead (seqs [Rep [Rg 48 57] 1 (Some 2), Cls [Ch 46, Ch 47], Cls [Rg 48 57]])]"

definition split_pattern :: regex where
  "split_pattern =
     seqs [Behind [NotSpace],
           Rep [Space] 1 None,
           Rep [Rg 48 57] 1 (Some 2),
           Lit [46],
           Rep [Space] 1 None,
           NotAhead (seqs [Rep [Rg 48 57, Ch 44] 1 None, Rep [Space] 0 None,
                           alts [seqs [Lit [1513], Rep [Ch 1524, Ch 39] 0 (Some 1), Lit [1495]],
                                 Lit [8362]]]),
           NotAhead (seqs [Rep [Rg 48 57] 1 (Some 2), Cls [Ch 46, Ch 47], Cls [Rg 48 57]]),
           Ahead (Cls [Rg 1424 1535])]"

definition is_new_clause :: "ustr \<Rightarrow> bool" where
  "is_new_clause line =
     (let is_header = list_ex (\<lambda>header. contains header line) SECTION_HEADERS;
          is_numbered_clause = re_match CLAUSE_NUMBER_PATTERN line
      in is_header \<or> is_numbered_clause)"

text \<open>
  The first loop: the state is the list \<open>clauses\<close> and the accumulator
  \<open>current_clause\<close>.
\<close>

fun group_lines :: "ustr list \<Rightarrow> ustr list \<Rightarrow> ustr \<Rightarrow> ustr list \<times> ustr" where
  "group_lines [] clauses current_clause = (clauses, current_clause)"
| "group_lines (l # ls) clauses current_clause =
     (let line = strip l in
      if line = [] then group_lines ls clauses current_clause
      else if is_new_clause line then
        group_lines ls
          (if current_clause \<noteq> [] \<and> length (strip current_clause) > 15
           then clauses @ [strip current_clause] else clauses)
          line
      else
        group_lines ls clauses
          (if current_clause \<noteq> [] then current_clause @ [32] @ line else line))"

definition grouped_clauses :: "ustr \<Rightarrow> ustr list" where
  "grouped_clauses text =
     (case group_lines (split_nl text) [] [] of
        (clauses, current_clause) \<Rightarrow>
          if current_clause \<noteq> [] \<and> length (strip current_clause) > 15
          then clauses @ [strip current_clause] else clauses)"

text \<open>
  The loop over \<open>split_points\<close> of one clause, and the last part after it.
\<close>

fun cut_clause :: "ustr \<Rightarrow> nat \<Rightarrow> nat list \<Rightarrow> ustr list" where
  "cut_clause clause prev_pos [] =
     (let last_part = strip (drop prev_pos clause)
      in if length last_part > 15 then [last_part] else [])"
| "cut_clause clause prev_pos (pos # rest) =
     (let sub_clause = strip (slice clause prev_pos pos)
      in (if length sub_clause > 15 then [sub_clause] else [])
           @ cut_clause clause (pos + 1) rest)"

definition resplit :: "ustr \<Rightarrow> ustr list" where
  "resplit clause =
     (let split_points = match_starts split_pattern clause
      in if split_points \<noteq> [] then cut_clause clause 0 split_points
         else if length clause > 15 then [clause] else [])"

definition final_clauses :: "ustr \<Rightarrow> ustr list" where
  "final_clauses text = concat (map resplit (grouped_clauses text))"

definition normalize_ws :: "ustr \<Rightarrow> ustr" where
  "normalize_ws clause = strip (re_sub (Rep [Space] 1 None) [32] clause)"

definition digits_only_pattern :: regex where
  "digits_only_pattern = seqs [Bol, Rep [Digit, NotWord] 1 None, Eol]"

definition cleanup :: "ustr list \<Rightarrow> ustr list" where
  "cleanup l = filter (\<lambda>clause. \<not> re_match digits_only_pattern clause) (map normalize_ws l)"

definition split_to_clauses :: "ustr \<Rightarrow> ustr list" where
  "split_to_clauses text = cleanup (final_clauses text)"

subsection \<open>Confidence and the handler\<close>

definition calculate_contract_confidence :: "ustr \<Rightarrow> int" where
  "calculate_contract_confidence text =
     (let text_lower = lower text;
          score = sum_list (map snd
                    (filter (\<lambda>(keyword, weight). contains keyword text \<or> contains keyword text_lower)
                       CONTRACT_KEYWORDS))
      in min 100 score)"

text \<open>
  The event: \<open>extractedText\<close> may be missing, \<open>null\<close> or a string; the other keys are
  passed through.
\<close>

datatype 'a field = Missing | Null | Present 'a

record event =
  extractedText :: "ustr field"
  contractId :: "pyval option"
  bucket :: "pyval option"
  key :: "pyval option"

text \<open>The returned dict; \<open>None\<close> stands for a key that the dict does not have.\<close>

record response =
  error :: "ustr option"
  contractConfidence :: "int option"
  sanitizedText :: "ustr option"
  clauses :: "ustr list option"
  piiFound :: "pii_type list option"
  res_contractId :: "pyval option"
  res_bucket :: "pyval option"
  res_key :: "pyval option"

definition get_or_none :: "pyval option \<Rightarrow> pyval" where
  "get_or_none v = (case v of None \<Rightarrow> PNone | Some x \<Rightarrow> x)"

text \<open>
  The three transforms of the text, in the order of the handler: direction, masking,
  noise.
\<close>

definition sanitize_text :: "ustr \<Rightarrow> ustr" where
  "sanitize_text text = clean_ocr_noise (fst (sanitize_pii (detect_and_fix_direction text)))"

text \<open>
  \<open>event.get('extractedText', '')\<close>: the default stands in for a missing key only;
  \<open>None\<close> is Python's \<open>None\<close>.
\<close>

definition event_get_text :: "event \<Rightarrow> ustr option" where
  "event_get_text ev =
     (case extractedText ev of Missing \<Rightarrow> Some [] | Null \<Rightarrow> None | Present t \<Rightarrow> Some t)"

text \<open>
  \<open>lambda_handler\<close>. The log line before the test of the text evaluates \<open>len(text)\<close>,
  which raises TypeError on \<open>None\<close>; the handler logs the exception and raises it again.
\<close>

definition lambda_handler :: "event \<Rightarrow> pyexn + response" where
  "lambda_handler ev =
     (case event_get_text ev of
        None \<Rightarrow> Inl TypeError
      | Some text0 \<Rightarrow>
          if text0 = [] then
            Inr \<lparr> error = Some (asc ''No text extracted''), contractConfidence = Some 0,
                  sanitizedText = Some [], clauses = None, piiFound = None,
                  res_contractId = None, res_bucket = None, res_key = None \<rparr>
          else
            (let text1 = detect_and_fix_direction text0;
                 (text2, pii_found) = sanitize_pii text1;
                 text3 = clean_ocr_noise text2;
                 clauses_list = split_to_clauses text3;
                 contract_confidence = calculate_contract_confidence text3
             in Inr \<lparr> error = None, contractConfidence = Some contract_confidence,
                      sanitizedText = Some text3, clauses = Some clauses_list,
                      piiFound = Some pii_found,
                      res_contractId =
                        Some (case contractId ev of None \<Rightarrow> PStr (asc ''unknown'') | Some v \<Rightarrow> v),
                      res_bucket = Some (get_or_none (bucket ev)),
                      res_key = Some (get_or_none (key ev)) \<rparr>))"

definition text_event :: "ustr \<Rightarrow> event" where
  "text_event t = \<lparr> extractedText = Present t, contractId = None, bucket = None, key = None \<rparr>"

text \<open>The text and the clause list of the handler's result.\<close>

definition result_text :: "event \<Rightarrow> ustr option" where
  "result_text ev = (case lambda_handler ev of Inl e \<Rightarrow> None | Inr r \<Rightarrow> sanitizedText r)"

definition result_clauses :: "event \<Rightarrow> ustr list option" where
  "result_clauses ev = (case lambda_handler ev of Inl e \<Rightarrow> None | Inr r \<Rightarrow> clauses r)"

text \<open>The characters of a string that are not white space, in order.\<close>

definition non_space :: "ustr \<Rightarrow> ustr" where
  "non_space s = filter (\<lambda>ch. \<not> is_space ch) s"

section \<open>Properties of the risk score calculator\<close>

lemma examine_cases:
  "(\<exists>e. examine i = Inl e) \<or> examine i = Inr Dropped \<or> (\<exists>c n. examine i = Inr (Kept c n))"
proof (cases "examine i")
  case (Inl e)
  then show ?thesis by simp
next
  case (Inr v)
  then show ?thesis by (cases v) auto
qed

lemma examine_Kept_pos:
  assumes "examine i = Inr (Kept c n)"
  shows "0 < n"
  using assms
  by (auto simp: examine_def valid_issue_def split: sum.splits bool.splits if_splits)

lemma converts_iff: "converts i \<longleftrightarrow> (\<exists>v. examine i = Inr v)"
  by (simp add: converts_def split: sum.splits)

lemma not_converts_iff: "\<not> converts i \<longleftrightarrow> (\<exists>e. examine i = Inl e)"
  by (simp add: converts_def split: sum.splits)

lemma accepted_iff: "accepted i \<longleftrightarrow> (\<exists>c n. examine i = Inr (Kept c n))"
  by (simp add: accepted_def split: sum.splits verdict.splits)

lemma accepted_pos: "accepted i \<Longrightarrow> 0 < penalty_value i"
  using examine_Kept_pos[of i] by (auto simp: accepted_iff penalty_value_def)

lemma accepted_converts: "accepted i \<Longrightarrow> converts i"
  by (auto simp: accepted_iff converts_iff)

lemma category_penalty_nonneg: "0 \<le> category_penalty cat l"
  unfolding category_penalty_def
  by (induction l) (auto dest: accepted_pos)

lemma category_penalty_Cons:
  "category_penalty cat (i # l) =
     (if accepted i \<and> issue_category i = Some cat then penalty_value i else 0)
       + category_penalty cat l"
  by (simp add: category_penalty_def)

text \<open>
  The loop in closed form, from any state with non-negative scores, when the body gets
  through every issue: each score is lowered by the category's penalty sum and floored
  at 0, each accumulator grows by the same sum, and the accepted issues are appended in
  input order.
\<close>

lemma score_loop_spec:
  assumes "\<forall>i \<in> set l. converts i" and "\<forall>cat. 0 \<le> sc cat"
  shows "score_loop l (sc, pn, fl) =
           Inr ((\<lambda>cat. max 0 (sc cat - category_penalty cat l)),
                (\<lambda>cat. pn cat + category_penalty cat l),
                fl @ filter accepted l)"
  using assms
proof (induction l arbitrary: sc pn fl)
  case Nil
  then show ?case by (simp add: category_penalty_def max_def)
next
  case (Cons i l)
  note IH = Cons.IH
  note nonneg = Cons.prems(2)
  from Cons.prems(1) have ci: "converts i" and cl: "\<forall>i \<in> set l. converts i" by simp_all
  have skip: "score_loop l (sc, pn, fl) =
           Inr ((\<lambda>cat. max 0 (sc cat - category_penalty cat l)),
                (\<lambda>cat. pn cat + category_penalty cat l),
                fl @ filter accepted l)" for fl
    by (rule IH[OF cl nonneg])
  from ci examine_cases[of i]
  consider (dropped) "examine i = Inr Dropped"
    | (unmapped) n where "examine i = Inr (Kept None n)"
    | (mapped) k n where "examine i = Inr (Kept (Some k) n)"
    by (auto simp: converts_iff) (metis option.exhaust)
  then show ?case
  proof cases
    case dropped
    then have "\<not> accepted i" by (simp add: accepted_def)
    then show ?thesis using dropped skip by (simp add: category_penalty_Cons)
  next
    case unmapped
    then have "accepted i" "issue_category i = None"
      by (simp_all add: accepted_def issue_category_def)
    then show ?thesis using unmapped skip by (simp add: category_penalty_Cons)
  next
    case mapped
    then have a: "accepted i" and ic: "issue_category i = Some k" and pv: "penalty_value i = n"
      by (simp_all add: accepted_def issue_category_def penalty_value_def)
    have pos: "0 < n" using mapped by (rule examine_Kept_pos)
    have nn: "\<forall>cat. 0 \<le> (sc(k := max 0 (sc k - n))) cat" using nonneg by simp
    have gp: "0 \<le> category_penalty k l" by (rule category_penalty_nonneg)
    have sk: "0 \<le> sc k" using nonneg by simp
    have step: "score_loop (i # l) (sc, pn, fl) =
        score_loop l (sc(k := max 0 (sc k - n)), pn(k := pn k + n), fl @ [i])"
      using mapped by simp
    show ?thesis unfolding step IH[OF cl nn]
      using a ic pv gp sk pos
      by (auto simp add: category_penalty_Cons fun_eq_iff max_def)
  qed
qed

text \<open>An issue on which the loop body raises stops the loop with an exception.\<close>

lemma score_loop_raises:
  assumes "\<exists>i \<in> set l. \<not> converts i"
  shows "\<exists>e. score_loop l st = Inl e"
  using assms
proof (induction l arbitrary: st)
  case Nil
  then show ?case by simp
next
  case (Cons i l)
  obtain sc pn fl where st: "st = (sc, pn, fl)" by (cases st) auto
  show ?case
  proof (cases "converts i")
    case False
    then obtain e where "examine i = Inl e" by (auto simp: not_converts_iff)
    then show ?thesis by (simp add: st)
  next
    case True
    with Cons.prems have "\<exists>i \<in> set l. \<not> converts i" by auto
    then have "\<exists>e. score_loop l st' = Inl e" for st' by (rule Cons.IH)
    then show ?thesis
      by (auto simp: st split: sum.splits verdict.splits option.splits)
  qed
qed

lemma category_penalty_mset:
  assumes "mset l = mset l'"
  shows "category_penalty cat l = category_penalty cat l'"
proof -
  have "category_penalty cat k =
          sum_mset (image_mset penalty_value
            (filter_mset (\<lambda>i. accepted i \<and> issue_category i = Some cat) (mset k)))" for k
    unfolding category_penalty_def
    by (simp flip: sum_mset_sum_list)
  with assms show ?thesis by simp
qed

lemma category_penalty_filter_accepted:
  "category_penalty cat (filter accepted l) = category_penalty cat l"
  unfolding category_penalty_def
  by (simp add: conj_commute cong: conj_cong)

lemma sum_values_bounds:
  assumes "\<forall>cat. 0 \<le> f cat \<and> f cat \<le> 20"
  shows "0 \<le> sum_values f \<and> sum_values f \<le> 100"
proof -
  have "0 \<le> f financial_terms \<and> f financial_terms \<le> 20"
       "0 \<le> f tenant_rights \<and> f tenant_rights \<le> 20"
       "0 \<le> f termination_clauses \<and> f termination_clauses \<le> 20"
       "0 \<le> f liability_repairs \<and> f liability_repairs \<le> 20"
       "0 \<le> f legal_compliance \<and> f legal_compliance \<le> 20"
    using assms by blast+
  then show ?thesis unfolding sum_values_def by linarith
qed

text \<open>The normal path, for a list of issues through all of which the body gets.\<close>

lemma recalculate_scores_contract:
  assumes "flagged_contract a" and "issue_items a = Inr l" and "\<forall>i \<in> set l. converts i"
  shows "recalculate_scores a =
     Inr (a \<lparr> issues := Some (PList (filter accepted l)),
              score_breakdown :=
                Some (\<lambda>cat. \<lparr> score = max 0 (20 - category_penalty cat l),
                               penalties = Some (category_penalty cat l),
                               max_points = Some 20 \<rparr>),
              overall_risk_score :=
                Some (sum_values (\<lambda>cat. max 0 (20 - category_penalty cat l))) \<rparr>)"
proof -
  have loop: "score_loop l ((\<lambda>cat. 20), (\<lambda>cat. 0), []) =
      Inr ((\<lambda>cat. max 0 (20 - category_penalty cat l)),
           (\<lambda>cat. 0 + category_penalty cat l),
           [] @ filter accepted l)"
    by (rule score_loop_spec) (use assms(3) in simp_all)
  show ?thesis
    using assms(1,2) loop
    by (simp add: recalculate_scores_def flagged_contract_def issue_items_def)
qed

lemma recalculate_scores_raises:
  assumes "flagged_contract a" and "issue_items a = Inr l" and "\<exists>i \<in> set l. \<not> converts i"
  shows "\<exists>e. recalculate_scores a = Inl e"
proof -
  obtain e where "score_loop l ((\<lambda>cat. 20), (\<lambda>cat. 0), []) = Inl e"
    using score_loop_raises[OF assms(3)] by blast
  then show ?thesis
    using assms(1,2)
    by (simp add: recalculate_scores_def flagged_contract_def issue_items_def)
qed

lemma recalculate_scores_not_contract:
  assumes "\<not> flagged_contract a"
  shows "recalculate_scores a =
     Inr (a \<lparr> overall_risk_score := Some 0,
              score_breakdown :=
                Some (\<lambda>cat. \<lparr> score = 0, penalties = None, max_points = None \<rparr>) \<rparr>)"
  using assms by (simp add: recalculate_scores_def flagged_contract_def)

text \<open>Issues with a string \<open>rule_id\<close> and an integer penalty.\<close>

lemma issue_keys_differ: "asc ''penalty_points'' \<noteq> asc ''rule_id''"
  by (simp add: asc_def)

lemma examine_mk_issue_int:
  "examine (mk_issue r (PInt n)) =
     (case asc r of
        [] \<Rightarrow> Inr Dropped
      | c # cs \<Rightarrow> if 0 < n then Inr (Kept (prefix_map (upper_char c)) n) else Inr Dropped)"
proof (cases "asc r")
  case Nil
  then show ?thesis
    by (simp add: examine_def mk_issue_def try_int_def valid_issue_def issue_keys_differ)
next
  case (Cons c cs)
  then show ?thesis
    by (simp add: examine_def mk_issue_def try_int_def valid_issue_def issue_keys_differ)
qed

lemma mk_analysis_simps:
  "issue_items (mk_analysis c l) = Inr l"
  "flagged_contract (mk_analysis c l) = c"
  "is_contract (mk_analysis c l) = Some (PBool c)"
  "issues (mk_analysis c l) = Some (PList l)"
  by (simp_all add: mk_analysis_def issue_items_def flagged_contract_def)

text \<open>
  When the call returns on a result flagged as a contract, every category ends with the
  score max(0, 20 - P), where P is the sum of the penalties of the accepted issues that
  select the category; the breakdown reports P itself, which may exceed 20; the overall
  score is the sum of the five scores; every category score lies in [0,20] and the
  overall score in [0,100].
\<close>

lemma recalculate_scores_scores_when_returning:
  assumes "flagged_contract a" and "issue_items a = Inr l" and "\<forall>i \<in> set l. converts i"
  shows "\<exists>r bd. recalculate_scores a = Inr r \<and> score_breakdown r = Some bd \<and>
     (\<forall>cat. score (bd cat) = max 0 (20 - category_penalty cat l) \<and>
            penalties (bd cat) = Some (category_penalty cat l) \<and>
            0 \<le> score (bd cat) \<and> score (bd cat) \<le> 20) \<and>
     overall_risk_score r = Some (sum_values (\<lambda>cat. score (bd cat))) \<and>
     0 \<le> sum_values (\<lambda>cat. score (bd cat)) \<and> sum_values (\<lambda>cat. score (bd cat)) \<le> 100"
proof -
  let ?sc = "\<lambda>cat. max 0 (20 - category_penalty cat l)"
  have rng: "\<forall>cat. 0 \<le> ?sc cat \<and> ?sc cat \<le> 20"
    using category_penalty_nonneg[of _ l] by (simp add: max_def)
  have bounds: "0 \<le> sum_values ?sc \<and> sum_values ?sc \<le> 100"
    by (rule sum_values_bounds[OF rng])
  show ?thesis
    unfolding recalculate_scores_contract[OF assms]
    using rng bounds by simp
qed

text \<open>
  The example of the specification: F1 with penalty 10 and F4 with penalty 15 give
  financial_terms the score 0 with penalty sum 25, and the overall score 80.
\<close>

lemma recalculate_scores_example_two_financial:
  "\<exists>r bd. recalculate_scores (mk_analysis True [mk_issue ''F1'' (PInt 10), mk_issue ''F4'' (PInt 15)])
              = Inr r \<and>
      score_breakdown r = Some bd \<and> score (bd financial_terms) = 0 \<and>
      penalties (bd financial_terms) = Some 25 \<and> score (bd tenant_rights) = 20 \<and>
      score (bd termination_clauses) = 20 \<and> score (bd liability_repairs) = 20 \<and>
      score (bd legal_compliance) = 20 \<and> overall_risk_score r = Some 80"
proof -
  let ?l = "[mk_issue ''F1'' (PInt 10), mk_issue ''F4'' (PInt 15)]"
  let ?a = "mk_analysis True ?l"
  have h1: "flagged_contract ?a" and h2: "issue_items ?a = Inr ?l"
    by (simp_all add: mk_analysis_simps)
  have h3: "\<forall>i \<in> set ?l. converts i"
    by (simp add: converts_def examine_mk_issue_int asc_def)
  have cp: "category_penalty cat ?l = (if cat = financial_terms then 25 else 0)" for cat
    by (cases cat)
       (simp_all add: category_penalty_def accepted_def issue_category_def penalty_value_def
          examine_mk_issue_int asc_def prefix_map_def upper_char_def)
  show ?thesis
    unfolding recalculate_scores_contract[OF h1 h2 h3]
    by (simp add: cp sum_values_def)
qed

text \<open>
  C2. The scores are not computed for every issue list. With F1 of penalty 10 and F4 of
  an infinite penalty the claim gives financial_terms the score 10 (the malformed
  penalty counting as 0) and the overall score 90; the call raises OverflowError
  instead and returns no score.
\<close>

theorem recalculate_scores_no_scores_on_infinite_penalty:
  "recalculate_scores (mk_analysis True [mk_issue ''F1'' (PInt 10), mk_issue ''F4'' (PFloat PosInf)])
     = Inl OverflowError"
  by (simp add: recalculate_scores_def mk_analysis_def examine_mk_issue_int asc_def
        prefix_map_def upper_char_def)
     (simp add: examine_def mk_issue_def try_int_def issue_keys_differ)

text \<open>
  C4. The conversion of the penalty is wrapped in a handler for ValueError and TypeError
  only. A penalty that is an infinite float (which \<open>json.loads\<close> produces for
  \<open>Infinity\<close> or for \<open>1e999\<close>) makes \<open>int\<close> raise OverflowError, which leaves
  \<open>recalculate_scores\<close>: the issue is not dropped, the call fails.
\<close>

theorem recalculate_scores_infinite_penalty_raises:
  "recalculate_scores (mk_analysis True [mk_issue ''F1'' (PFloat PosInf)]) = Inl OverflowError"
  by (simp add: recalculate_scores_def mk_analysis_def examine_def mk_issue_def try_int_def
        issue_keys_differ)

text \<open>
  What holds of C4 when the body gets through every issue: a penalty on which \<open>int\<close>
  raises ValueError or TypeError, and a missing one, count as 0 and the issue is
  dropped; the output list holds exactly the accepted issues, in input order; an
  accepted issue whose first character selects no category changes no score.
\<close>

lemma try_int_malformed:
  assumes "py_int v = Inl ValueError \<or> py_int v = Inl TypeError"
  shows "try_int v = Inr 0"
  using assms by (auto simp: try_int_def)

lemma recalculate_scores_accepts:
  assumes "flagged_contract a" and "issue_items a = Inr l" and "\<forall>i \<in> set l. converts i"
  shows "\<exists>r. recalculate_scores a = Inr r \<and> issues r = Some (PList (filter accepted l))"
  unfolding recalculate_scores_contract[OF assms] by simp

lemma category_penalty_ignores_unmapped:
  assumes "issue_category i = None"
  shows "category_penalty cat (i # l) = category_penalty cat l"
  using assms by (simp add: category_penalty_Cons)

lemma recalculate_scores_example_unmapped:
  "\<exists>r bd. recalculate_scores (mk_analysis True [mk_issue '''' (PInt 5), mk_issue ''Z9'' (PInt 5)])
            = Inr r \<and>
     issues r = Some (PList [mk_issue ''Z9'' (PInt 5)]) \<and> score_breakdown r = Some bd \<and>
     (\<forall>cat. score (bd cat) = 20) \<and> overall_risk_score r = Some 100"
proof -
  let ?l = "[mk_issue '''' (PInt 5), mk_issue ''Z9'' (PInt 5)]"
  let ?a = "mk_analysis True ?l"
  have h1: "flagged_contract ?a" and h2: "issue_items ?a = Inr ?l"
    by (simp_all add: mk_analysis_simps)
  have h3: "\<forall>i \<in> set ?l. converts i"
    by (simp add: converts_def examine_mk_issue_int asc_def)
  have cp: "category_penalty cat ?l = 0" for cat
    by (simp add: category_penalty_def accepted_def issue_category_def penalty_value_def
          examine_mk_issue_int asc_def prefix_map_def upper_char_def)
  have a1: "\<not> accepted (mk_issue '''' (PInt 5))" and a2: "accepted (mk_issue ''Z9'' (PInt 5))"
    by (simp_all add: accepted_def examine_mk_issue_int asc_def)
  show ?thesis
    unfolding recalculate_scores_contract[OF h1 h2 h3]
    by (simp add: cp a1 a2 sum_values_def)
qed

text \<open>
  C5. When the result is flagged as not a contract (\<open>is_contract\<close> is \<open>false\<close>), the call
  returns with overall score 0 and the five category scores 0, whatever the issues are;
  the issues are not read (so no penalty is converted and nothing can be raised) and the
  list is left as it was.
\<close>

theorem recalculate_scores_not_contract_zero:
  assumes "is_contract a = Some (PBool False)"
  shows "\<exists>r bd. recalculate_scores a = Inr r \<and> overall_risk_score r = Some 0 \<and>
           score_breakdown r = Some bd \<and> (\<forall>cat. score (bd cat) = 0) \<and>
           issues r = issues a"
proof -
  have "\<not> flagged_contract a" using assms by (simp add: flagged_contract_def)
  then show ?thesis by (simp add: recalculate_scores_not_contract)
qed

theorem recalculate_scores_not_contract_zero_witness:
  "is_contract (mk_analysis False [mk_issue ''F1'' (PFloat PosInf), mk_issue ''T2'' (PInt 10)])
     = Some (PBool False) \<and>
   (\<exists>r bd. recalculate_scores
              (mk_analysis False [mk_issue ''F1'' (PFloat PosInf), mk_issue ''T2'' (PInt 10)])
            = Inr r \<and>
      overall_risk_score r = Some 0 \<and> score_breakdown r = Some bd \<and>
      (\<forall>cat. score (bd cat) = 0) \<and>
      issues r = Some (PList [mk_issue ''F1'' (PFloat PosInf), mk_issue ''T2'' (PInt 10)]))"
proof -
  let ?a = "mk_analysis False [mk_issue ''F1'' (PFloat PosInf), mk_issue ''T2'' (PInt 10)]"
  have h: "is_contract ?a = Some (PBool False)" by (simp add: mk_analysis_simps)
  from recalculate_scores_not_contract_zero[OF h] show ?thesis
    using h by (simp add: mk_analysis_simps)
qed

text \<open>
  C9. The result is a function of the value of the argument: the code reads nothing
  else. It assigns its results to keys of the argument and returns it, so a second call
  on the same dict sees the result of the first; it returns that result unchanged.
  Permuting the issue list does not change whether the call returns, and when it
  returns the overall score and the score breakdown (scores and penalty sums) are the
  same. The output issue list is not the same: on a result flagged as a contract it
  holds the accepted issues in the order of the given list (otherwise the given list
  itself).
\<close>

theorem recalculate_scores_permutation:
  assumes "mset l = mset l'"
  shows "rel_sum (\<lambda>e e'. True)
           (\<lambda>r r'. scores_of r = scores_of r' \<and>
                    issues r = Some (PList (if flagged_contract a then filter accepted l else l)) \<and>
                    issues r' = Some (PList (if flagged_contract a then filter accepted l' else l')) \<and>
                    is_contract r = is_contract r' \<and> other_fields r = other_fields r' \<and>
                    recalculate_scores r = Inr r \<and> recalculate_scores r' = Inr r')
           (recalculate_scores (a \<lparr> issues := Some (PList l) \<rparr>))
           (recalculate_scores (a \<lparr> issues := Some (PList l') \<rparr>))"
proof -
  let ?a = "a \<lparr> issues := Some (PList l) \<rparr>" and ?a' = "a \<lparr> issues := Some (PList l') \<rparr>"
  have inp: "issue_items ?a = Inr l" "issue_items ?a' = Inr l'"
    by (simp_all add: issue_items_def)
  have fc: "flagged_contract ?a = flagged_contract a" "flagged_contract ?a' = flagged_contract a"
    by (simp_all add: flagged_contract_def)
  have sets: "set l = set l'" using assms by (rule mset_eq_setD)
  show ?thesis
  proof (cases "flagged_contract a")
    case False
    then have nf: "\<not> flagged_contract ?a" "\<not> flagged_contract ?a'" using fc by simp_all
    let ?z = "\<lambda>x. x \<lparr> overall_risk_score := Some 0,
                       score_breakdown :=
                         Some (\<lambda>cat. \<lparr> score = 0, penalties = None, max_points = None \<rparr>) \<rparr>"
    have nz: "\<not> flagged_contract (?z ?a)" "\<not> flagged_contract (?z ?a')"
      using False by (simp_all add: flagged_contract_def)
    have again: "recalculate_scores (?z ?a) = Inr (?z ?a)"
      "recalculate_scores (?z ?a') = Inr (?z ?a')"
      by (simp_all add: recalculate_scores_not_contract[OF nz(1)]
            recalculate_scores_not_contract[OF nz(2)])
    show ?thesis
      unfolding recalculate_scores_not_contract[OF nf(1)] recalculate_scores_not_contract[OF nf(2)]
      using False again by (simp add: scores_of_def)
  next
    case True
    then have f: "flagged_contract ?a" "flagged_contract ?a'" using fc by simp_all
    show ?thesis
    proof (cases "\<forall>i \<in> set l. converts i")
      case conv: True
      then have conv': "\<forall>i \<in> set l'. converts i" using sets by simp
      have cp: "category_penalty cat l = category_penalty cat l'" for cat
        using assms by (rule category_penalty_mset)
      let ?bd = "Some (\<lambda>cat. \<lparr> score = max 0 (20 - category_penalty cat l'),
                               penalties = Some (category_penalty cat l'),
                               max_points = Some 20 \<rparr>)"
      let ?ov = "Some (sum_values (\<lambda>cat. max 0 (20 - category_penalty cat l')))"
      let ?r = "\<lambda>k. a \<lparr> issues := Some (PList (filter accepted k)),
                          score_breakdown := ?bd, overall_risk_score := ?ov \<rparr>"
      have r: "recalculate_scores ?a = Inr (?r l)"
        using recalculate_scores_contract[OF f(1) inp(1) conv] by (simp add: cp)
      have r': "recalculate_scores ?a' = Inr (?r l')"
        using recalculate_scores_contract[OF f(2) inp(2) conv'] by simp
      have again: "recalculate_scores (?r k) = Inr (?r k)" if "mset k = mset l'" for k
      proof -
        have fr: "flagged_contract (?r k)" using True by (simp add: flagged_contract_def)
        have ir: "issue_items (?r k) = Inr (filter accepted k)" by (simp add: issue_items_def)
        have cr: "\<forall>i \<in> set (filter accepted k). converts i" by (simp add: accepted_converts)
        have "category_penalty cat (filter accepted k) = category_penalty cat l'" for cat
          using category_penalty_mset[OF that] by (simp add: category_penalty_filter_accepted)
        then show ?thesis
          using recalculate_scores_contract[OF fr ir cr] by simp
      qed
      show ?thesis
        unfolding r r'
        using True again[of l] again[of l'] assms by (simp add: scores_of_def)
    next
      case False
      then have c: "\<exists>i \<in> set l. \<not> converts i" and c': "\<exists>i \<in> set l'. \<not> converts i"
        using sets by simp_all
      obtain e e' where "recalculate_scores ?a = Inl e" "recalculate_scores ?a' = Inl e'"
        using recalculate_scores_raises[OF f(1) inp(1) c]
          recalculate_scores_raises[OF f(2) inp(2) c'] by blast
      then show ?thesis by simp
    qed
  qed
qed

theorem recalculate_scores_permutation_witness:
  "mset [mk_issue ''F1'' (PInt 5), mk_issue ''T1'' (PInt 5)]
     = mset [mk_issue ''T1'' (PInt 5), mk_issue ''F1'' (PInt 5)] \<and>
   rel_sum (\<lambda>e e'. True)
     (\<lambda>r r'. scores_of r = scores_of r' \<and>
              issues r = Some (PList (if flagged_contract (mk_analysis True [])
                 then filter accepted [mk_issue ''F1'' (PInt 5), mk_issue ''T1'' (PInt 5)]
                 else [mk_issue ''F1'' (PInt 5), mk_issue ''T1'' (PInt 5)])) \<and>
              issues r' = Some (PList (if flagged_contract (mk_analysis True [])
                 then filter accepted [mk_issue ''T1'' (PInt 5), mk_issue ''F1'' (PInt 5)]
                 else [mk_issue ''T1'' (PInt 5), mk_issue ''F1'' (PInt 5)])) \<and>
              is_contract r = is_contract r' \<and> other_fields r = other_fields r' \<and>
              recalculate_scores r = Inr r \<and> recalculate_scores r' = Inr r')
     (recalculate_scores ((mk_analysis True []) \<lparr> issues :=
        Some (PList [mk_issue ''F1'' (PInt 5), mk_issue ''T1'' (PInt 5)]) \<rparr>))
     (recalculate_scores ((mk_analysis True []) \<lparr> issues :=
        Some (PList [mk_issue ''T1'' (PInt 5), mk_issue ''F1'' (PInt 5)]) \<rparr>))"
proof -
  have h: "mset [mk_issue ''F1'' (PInt 5), mk_issue ''T1'' (PInt 5)]
     = mset [mk_issue ''T1'' (PInt 5), mk_issue ''F1'' (PInt 5)]"
    by (simp add: add.commute)
  from recalculate_scores_permutation[OF h, of "mk_analysis True []"] h show ?thesis
    by blast
qed

text \<open>
  The two orders of the issues F1 and T1 (penalty 5 each) are permutations of each other,
  and the two results differ: the output issue list follows the input order.
\<close>

theorem recalculate_scores_permutation_counterexample:
  "mset [mk_issue ''F1'' (PInt 5), mk_issue ''T1'' (PInt 5)]
     = mset [mk_issue ''T1'' (PInt 5), mk_issue ''F1'' (PInt 5)] \<and>
   recalculate_scores (mk_analysis True [mk_issue ''F1'' (PInt 5), mk_issue ''T1'' (PInt 5)])
     \<noteq> recalculate_scores (mk_analysis True [mk_issue ''T1'' (PInt 5), mk_issue ''F1'' (PInt 5)])"
proof -
  let ?f = "mk_issue ''F1'' (PInt 5)" and ?t = "mk_issue ''T1'' (PInt 5)"
  have ne: "?f \<noteq> ?t" by (simp add: mk_issue_def asc_def)
  have acc: "accepted ?f" "accepted ?t"
    by (simp_all add: accepted_def examine_mk_issue_int asc_def)
  have h1: "flagged_contract (mk_analysis True l)" for l by (simp add: mk_analysis_simps)
  have h2: "issue_items (mk_analysis True l) = Inr l" for l by (simp add: mk_analysis_simps)
  have c1: "\<forall>i \<in> set [?f, ?t]. converts i" and c2: "\<forall>i \<in> set [?t, ?f]. converts i"
    using acc by (simp_all add: accepted_converts)
  have i1: "\<exists>r. recalculate_scores (mk_analysis True [?f, ?t]) = Inr r \<and>
                issues r = Some (PList [?f, ?t])"
    unfolding recalculate_scores_contract[OF h1 h2 c1] by (simp add: acc)
  have i2: "\<exists>r. recalculate_scores (mk_analysis True [?t, ?f]) = Inr r \<and>
                issues r = Some (PList [?t, ?f])"
    unfolding recalculate_scores_contract[OF h1 h2 c2] by (simp add: acc)
  have "recalculate_scores (mk_analysis True [?f, ?t])
          \<noteq> recalculate_scores (mk_analysis True [?t, ?f])"
    using i1 i2 ne by auto
  then show ?thesis by (simp add: add.commute)
qed

text \<open>
  Outside the \<open>try\<close> block the exception depends on the order: with an issue whose
  \<open>rule_id\<close> is the number 7 and an issue with an infinite penalty, one order raises
  TypeError (from \<open>len\<close>) and the other OverflowError (from \<open>int\<close>).
\<close>

lemma recalculate_scores_exception_order:
  "recalculate_scores (mk_analysis True
      [PDict [(asc ''rule_id'', PInt 7), (asc ''penalty_points'', PInt 5)],
       mk_issue ''F1'' (PFloat PosInf)]) = Inl TypeError \<and>
   recalculate_scores (mk_analysis True
      [mk_issue ''F1'' (PFloat PosInf),
       PDict [(asc ''rule_id'', PInt 7), (asc ''penalty_points'', PInt 5)]]) = Inl OverflowError"
  by (simp add: recalculate_scores_def mk_analysis_def examine_def mk_issue_def try_int_def
        valid_issue_def issue_keys_differ)

text \<open>
  C10. When \<open>is_contract\<close> is \<open>false\<close>, the result is the argument with
  \<open>overall_risk_score\<close> and \<open>score_breakdown\<close> replaced: \<open>is_contract\<close>, the issue list
  and every other field are returned as they were. In particular, issues that the
  normal path would drop stay in the list.
\<close>

theorem recalculate_scores_not_contract_frame:
  assumes "is_contract a = Some (PBool False)"
  shows "\<exists>r. recalculate_scores a = Inr r \<and>
           r = a \<lparr> overall_risk_score := overall_risk_score r,
                   score_breakdown := score_breakdown r \<rparr> \<and>
           is_contract r = is_contract a \<and> issues r = issues a \<and>
           other_fields r = other_fields a"
proof -
  have "\<not> flagged_contract a" using assms by (simp add: flagged_contract_def)
  then show ?thesis by (simp add: recalculate_scores_not_contract)
qed

text \<open>
  An issue with an empty rule identifier and one with penalty 0 stay in the list when
  \<open>is_contract\<close> is \<open>false\<close>; the normal path drops both.
\<close>

theorem recalculate_scores_not_contract_frame_witness:
  "is_contract (mk_analysis False [mk_issue '''' (PInt 5), mk_issue ''F1'' (PInt 0)])
     = Some (PBool False) \<and>
   (\<exists>r. recalculate_scores (mk_analysis False [mk_issue '''' (PInt 5), mk_issue ''F1'' (PInt 0)])
           = Inr r \<and>
      issues r = Some (PList [mk_issue '''' (PInt 5), mk_issue ''F1'' (PInt 0)])) \<and>
   (\<exists>r. recalculate_scores (mk_analysis True [mk_issue '''' (PInt 5), mk_issue ''F1'' (PInt 0)])
           = Inr r \<and>
      issues r = Some (PList []))"
proof -
  let ?l = "[mk_issue '''' (PInt 5), mk_issue ''F1'' (PInt 0)]"
  have h: "is_contract (mk_analysis False ?l) = Some (PBool False)"
    by (simp add: mk_analysis_simps)
  have h1: "flagged_contract (mk_analysis True ?l)"
    and h2: "issue_items (mk_analysis True ?l) = Inr ?l"
    by (simp_all add: mk_analysis_simps)
  have h3: "\<forall>i \<in> set ?l. converts i"
    by (simp add: converts_def examine_mk_issue_int asc_def)
  have na: "\<not> accepted (mk_issue '''' (PInt 5))" "\<not> accepted (mk_issue ''F1'' (PInt 0))"
    by (simp_all add: accepted_def examine_mk_issue_int asc_def)
  have normal: "\<exists>r. recalculate_scores (mk_analysis True ?l) = Inr r \<and> issues r = Some (PList [])"
    unfolding recalculate_scores_contract[OF h1 h2 h3]
    by (simp add: na)
  from recalculate_scores_not_contract_frame[OF h] normal h show ?thesis
    by (auto simp: mk_analysis_simps)
qed

section \<open>Properties of the text normalizer\<close>

subsection \<open>Evaluation on concrete texts\<close>

lemmas class_defs = in_class_def is_word_def is_alnum_def is_digit_def is_space_def
  word_before_def word_after_def fold_case_def

lemmas pattern_defs = israeli_id_pattern_def credit_card_pattern_def phone_mobile_pattern_def
  email_pattern_def bank_account_pattern_def opt_sep_def PII_PATTERNS_def
  OCR_NOISE_PATTERNS_def

lemmas strip_defs = strip_def lstrip_def rstrip_def

lemma result_text_eq:
  assumes "t \<noteq> []"
  shows "result_text (text_event t) = Some (sanitize_text t)"
  using assms
  by (simp add: result_text_def lambda_handler_def event_get_text_def text_event_def
        sanitize_text_def Let_def split: prod.splits)

lemma result_clauses_eq:
  assumes "t \<noteq> []"
  shows "result_clauses (text_event t) = Some (split_to_clauses (sanitize_text t))"
  using assms
  by (simp add: result_clauses_def lambda_handler_def event_get_text_def text_event_def
        sanitize_text_def Let_def split: prod.splits)

text \<open>
  The text \<open>12345678___\<close>: an eight-digit number followed by underscores. The underscore
  is a word character, so there is no \<open>\b\<close> after the digits and no pattern matches;
  noise cleaning then removes the underscores.
\<close>

lemma direction_id_underscores:
  "detect_and_fix_direction (asc ''12345678___'') = asc ''12345678___''"
  by (simp add: detect_and_fix_direction_def keyword_score_def KEYWORDS_NORMAL_def
        KEYWORDS_REVERSED_def asc_def)

lemma sanitize_pii_id_underscores:
  "sanitize_pii (asc ''12345678___'') = (asc ''12345678___'', [])"
  by (simp add: sanitize_pii_def re_search_def pattern_defs class_defs asc_def Let_def)

lemma clean_ocr_noise_id_underscores:
  "clean_ocr_noise (asc ''12345678___'') = asc ''12345678''"
  by (simp add: clean_ocr_noise_def re_sub_def pattern_defs class_defs asc_def Let_def
        strip_defs)

lemma sanitize_text_id_underscores:
  "sanitize_text (asc ''12345678___'') = asc ''12345678''"
  by (simp add: sanitize_text_def direction_id_underscores sanitize_pii_id_underscores
        clean_ocr_noise_id_underscores)

text \<open>The text \<open>12345678\<close>, the output of the first pass.\<close>

lemma direction_id:
  "detect_and_fix_direction (asc ''12345678'') = asc ''12345678''"
  by (simp add: detect_and_fix_direction_def keyword_score_def KEYWORDS_NORMAL_def
        KEYWORDS_REVERSED_def asc_def)

lemma sanitize_pii_id:
  "sanitize_pii (asc ''12345678'') =
     ([91, 1514, 46, 1494, 46, 32, 1492, 1493, 1505, 1514, 1512, 93], [israeli_id])"
  by (simp add: sanitize_pii_def re_search_def re_sub_def pattern_defs class_defs asc_def
        Let_def)

lemma clean_ocr_noise_mask:
  "clean_ocr_noise [91, 1514, 46, 1494, 46, 32, 1492, 1493, 1505, 1514, 1512, 93] =
     [91, 1514, 46, 1494, 46, 32, 1492, 1493, 1505, 1514, 1512, 93]"
  by (simp add: clean_ocr_noise_def re_sub_def pattern_defs class_defs asc_def Let_def
        strip_defs)

lemma sanitize_text_id:
  "sanitize_text (asc ''12345678'') =
     [91, 1514, 46, 1494, 46, 32, 1492, 1493, 1505, 1514, 1512, 93]"
  by (simp add: sanitize_text_def direction_id sanitize_pii_id clean_ocr_noise_mask)

lemma search_id:
  "re_search israeli_id_pattern (asc ''12345678'')"
  by (simp add: re_search_def israeli_id_pattern_def class_defs asc_def Let_def)

subsection \<open>Masking and idempotence\<close>

text \<open>
  C1. The sanitized text can still match a PII pattern. For the input \<open>12345678___\<close>
  the handler returns the sanitized text \<open>12345678\<close>, which the pattern
  \<open>israeli_id\<close> matches: the digits are masked only when a word boundary follows
  them, and the underscores that prevent it are removed after masking.
\<close>

theorem sanitized_text_keeps_identity_number:
  "result_text (text_event (asc ''12345678___'')) = Some (asc ''12345678'') \<and>
   re_search israeli_id_pattern (asc ''12345678'')"
proof -
  have "asc ''12345678___'' \<noteq> []" by (simp add: asc_def)
  then have "result_text (text_event (asc ''12345678___'')) = Some (asc ''12345678'')"
    by (simp add: result_text_eq sanitize_text_id_underscores)
  then show ?thesis using search_id by simp
qed

text \<open>
  C3. Sanitizing is not idempotent on its text output. The first pass turns
  \<open>12345678___\<close> into \<open>12345678\<close>; a second pass on that output masks the number and
  returns the replacement literal of \<open>israeli_id\<close>.
\<close>

theorem sanitize_twice_differs:
  "result_text (text_event (asc ''12345678___'')) = Some (asc ''12345678'') \<and>
   result_text (text_event (asc ''12345678'')) =
     Some [91, 1514, 46, 1494, 46, 32, 1492, 1493, 1505, 1514, 1512, 93] \<and>
   asc ''12345678'' \<noteq> [91, 1514, 46, 1494, 46, 32, 1492, 1493, 1505, 1514, 1512, 93]"
proof -
  have ne: "asc ''12345678___'' \<noteq> []" "asc ''12345678'' \<noteq> []" by (simp_all add: asc_def)
  have "result_text (text_event (asc ''12345678___'')) = Some (asc ''12345678'')"
    using ne(1) by (simp add: result_text_eq sanitize_text_id_underscores)
  moreover have "result_text (text_event (asc ''12345678'')) =
     Some [91, 1514, 46, 1494, 46, 32, 1492, 1493, 1505, 1514, 1512, 93]"
    using ne(2) by (simp add: result_text_eq sanitize_text_id)
  moreover have "asc ''12345678'' \<noteq> [91, 1514, 46, 1494, 46, 32, 1492, 1493, 1505, 1514, 1512, 93]"
    by (simp add: asc_def)
  ultimately show ?thesis by simp
qed

subsection \<open>Empty input\<close>

text \<open>
  C7. For an event whose \<open>extractedText\<close> is missing or the empty string the handler
  returns at once the dict with \<open>error\<close>, \<open>contractConfidence\<close> 0 and an empty
  \<open>sanitizedText\<close>. The dict has no other key: in particular no \<open>clauses\<close> list.
  No transform is applied and nothing is raised.
\<close>

theorem lambda_handler_no_text:
  assumes "extractedText ev = Missing \<or> extractedText ev = Present []"
  shows "lambda_handler ev =
           Inr \<lparr> error = Some (asc ''No text extracted''), contractConfidence = Some 0,
                 sanitizedText = Some [], clauses = None, piiFound = None,
                 res_contractId = None, res_bucket = None, res_key = None \<rparr>"
  using assms by (auto simp: lambda_handler_def event_get_text_def)

theorem lambda_handler_no_text_witness:
  "extractedText \<lparr> extractedText = Missing, contractId = Some (PStr (asc ''c1'')),
                    bucket = None, key = None \<rparr> = Missing \<and>
   lambda_handler \<lparr> extractedText = Missing, contractId = Some (PStr (asc ''c1'')),
                    bucket = None, key = None \<rparr> =
     Inr \<lparr> error = Some (asc ''No text extracted''), contractConfidence = Some 0,
           sanitizedText = Some [], clauses = None, piiFound = None,
           res_contractId = None, res_bucket = None, res_key = None \<rparr>"
proof -
  let ?ev = "\<lparr> extractedText = Missing, contractId = Some (PStr (asc ''c1'')),
               bucket = None, key = None \<rparr>"
  have h: "extractedText ?ev = Missing \<or> extractedText ?ev = Present []" by simp
  from lambda_handler_no_text[OF h] show ?thesis by simp
qed

text \<open>
  The result for the empty text has no \<open>clauses\<close> entry, so it does not hold an empty
  clauses list.
\<close>

theorem lambda_handler_no_text_counterexample:
  "lambda_handler (text_event []) =
     Inr \<lparr> error = Some (asc ''No text extracted''), contractConfidence = Some 0,
           sanitizedText = Some [], clauses = None, piiFound = None,
           res_contractId = None, res_bucket = None, res_key = None \<rparr> \<and>
   result_clauses (text_event []) \<noteq> Some []"
  by (simp add: lambda_handler_def event_get_text_def text_event_def result_clauses_def)

text \<open>A \<open>null\<close> text is not covered by the test for emptiness: the log line raises.\<close>

lemma lambda_handler_null_text:
  assumes "extractedText ev = Null"
  shows "lambda_handler ev = Inl TypeError"
  using assms by (simp add: lambda_handler_def event_get_text_def)

subsection \<open>Direction correction\<close>

lemma contains_iff: "contains w t \<longleftrightarrow> (\<exists>a b. t = a @ w @ b)"
proof (induction t)
  case Nil
  then show ?case by auto
next
  case (Cons c cs)
  have "take (length w) (c # cs) = w \<longleftrightarrow> (\<exists>b. c # cs = w @ b)"
    by (metis append_eq_conv_conj append_take_drop_id)
  moreover have "(\<exists>a b. c # cs = a @ w @ b) \<longleftrightarrow>
                 (\<exists>b. c # cs = w @ b) \<or> (\<exists>a b. cs = a @ w @ b)"
  proof
    assume "\<exists>a b. c # cs = a @ w @ b"
    then obtain a b where ab: "c # cs = a @ w @ b" by blast
    show "(\<exists>b. c # cs = w @ b) \<or> (\<exists>a b. cs = a @ w @ b)"
    proof (cases a)
      case Nil
      with ab show ?thesis by auto
    next
      case (Cons x a')
      with ab have "cs = a' @ w @ b" by simp
      then show ?thesis by blast
    qed
  next
    assume "(\<exists>b. c # cs = w @ b) \<or> (\<exists>a b. cs = a @ w @ b)"
    then show "\<exists>a b. c # cs = a @ w @ b"
    proof
      assume "\<exists>b. c # cs = w @ b"
      then obtain b where "c # cs = [] @ w @ b" by auto
      then show ?thesis by blast
    next
      assume "\<exists>a b. cs = a @ w @ b"
      then obtain a b where "c # cs = (c # a) @ w @ b" by auto
      then show ?thesis by blast
    qed
  qed
  ultimately show ?case using Cons.IH by simp
qed

text \<open>
  The score of a word list is the number of its words that occur in the text: a word
  counts once, however often it occurs.
\<close>

lemma keyword_score_card:
  assumes "distinct words"
  shows "keyword_score words t = card {w \<in> set words. \<exists>a b. t = a @ w @ b}"
proof -
  have "distinct (filter (\<lambda>w. contains w t) words)" using assms by simp
  then have "keyword_score words t = card (set (filter (\<lambda>w. contains w t) words))"
    unfolding keyword_score_def by (rule distinct_card[symmetric])
  also have "set (filter (\<lambda>w. contains w t) words) = {w \<in> set words. \<exists>a b. t = a @ w @ b}"
    by (auto simp: contains_iff)
  finally show ?thesis .
qed

lemma keyword_score_le: "keyword_score words t \<le> length words"
  by (simp add: keyword_score_def)

lemma KEYWORDS_REVERSED_rev: "KEYWORDS_REVERSED = map rev KEYWORDS_NORMAL"
  by (simp add: KEYWORDS_REVERSED_def KEYWORDS_NORMAL_def)

lemma split_nl_nonempty: "split_nl t \<noteq> []"
  by (induction t) (auto split: list.splits)

lemma split_nl_no_newline: "l \<in> set (split_nl t) \<Longrightarrow> 10 \<notin> set l"
proof (induction t arbitrary: l)
  case Nil
  then show ?case by simp
next
  case (Cons c cs)
  show ?case
  proof (cases "c = 10")
    case True
    with Cons show ?thesis by auto
  next
    case False
    obtain k ks where k: "split_nl cs = k # ks"
      using split_nl_nonempty[of cs] by (cases "split_nl cs") auto
    with Cons.prems False have "l = c # k \<or> l \<in> set ks" by auto
    moreover have "10 \<notin> set k" using Cons.IH[of k] k by simp
    moreover have "l \<in> set ks \<Longrightarrow> 10 \<notin> set l" using Cons.IH[of l] k by simp
    ultimately show ?thesis using False by auto
  qed
qed

lemma join_split_nl: "join_nl (split_nl t) = t"
proof (induction t)
  case Nil
  then show ?case by simp
next
  case (Cons c cs)
  obtain k ks where k: "split_nl cs = k # ks"
    using split_nl_nonempty[of cs] by (cases "split_nl cs") auto
  show ?case
  proof (cases "c = 10")
    case True
    with Cons k show ?thesis by simp
  next
    case False
    with Cons k show ?thesis by (cases ks) auto
  qed
qed

lemma split_nl_line: "10 \<notin> set l \<Longrightarrow> split_nl l = [l]"
  by (induction l) auto

lemma split_nl_append: "10 \<notin> set l \<Longrightarrow> split_nl (l @ 10 # r) = l # split_nl r"
  by (induction l) auto

lemma split_join_nl:
  assumes "ls \<noteq> []" and "\<forall>l \<in> set ls. 10 \<notin> set l"
  shows "split_nl (join_nl ls) = ls"
  using assms
proof (induction ls rule: join_nl.induct)
  case 1
  then show ?case by simp
next
  case (2 l)
  then show ?case by (simp add: split_nl_line)
next
  case (3 l m ls)
  then show ?case by (simp add: split_nl_append)
qed

text \<open>Reversing every line keeps the lines apart: the result has the reversed lines.\<close>

lemma split_nl_mirror: "split_nl (join_nl (map rev (split_nl t))) = map rev (split_nl t)"
proof (rule split_join_nl)
  show "map rev (split_nl t) \<noteq> []" by (simp add: split_nl_nonempty)
  show "\<forall>l \<in> set (map rev (split_nl t)). 10 \<notin> set l"
    using split_nl_no_newline[of _ t] by auto
qed

lemma KEYWORDS_distinct: "distinct KEYWORDS_NORMAL" "distinct KEYWORDS_REVERSED"
  by (simp_all add: KEYWORDS_NORMAL_def KEYWORDS_REVERSED_def)

lemma keyword_presence:
  "card {w \<in> set KEYWORDS_NORMAL. \<exists>a b. t = a @ w @ b} = keyword_score KEYWORDS_NORMAL t"
  "card {w \<in> set KEYWORDS_REVERSED. \<exists>a b. t = a @ w @ b} = keyword_score KEYWORDS_REVERSED t"
  by (simp_all add: keyword_score_card KEYWORDS_distinct)

text \<open>
  C6. Direction correction counts how many of the six normal keywords occur somewhere in
  the text and how many of the six reversed keywords (their mirror images) do; a keyword
  counts once, however often it occurs. When the reversed count is strictly greater, the
  result is the text with the characters of every line in reverse order, the lines
  staying where they are; otherwise, so also when the counts are equal, the result is
  the text itself.
\<close>

theorem detect_and_fix_direction_presence_rule:
  "(card {w \<in> set KEYWORDS_NORMAL. \<exists>a b. t = a @ w @ b}
      < card {w \<in> set KEYWORDS_REVERSED. \<exists>a b. t = a @ w @ b} \<longrightarrow>
      detect_and_fix_direction t = join_nl (map rev (split_nl t)) \<and>
      split_nl (detect_and_fix_direction t) = map rev (split_nl t)) \<and>
   (card {w \<in> set KEYWORDS_REVERSED. \<exists>a b. t = a @ w @ b}
      \<le> card {w \<in> set KEYWORDS_NORMAL. \<exists>a b. t = a @ w @ b} \<longrightarrow>
      detect_and_fix_direction t = t)"
  unfolding keyword_presence
  by (simp add: detect_and_fix_direction_def Let_def split_nl_mirror)

text \<open>
  A text of two lines with one reversed keyword is mirrored line by line; a text with one
  normal and one reversed keyword (a tie) is returned as it is.
\<close>

theorem detect_and_fix_direction_presence_rule_witness:
  "card {w \<in> set KEYWORDS_NORMAL.
          \<exists>a b. [1492, 1494, 1493, 1495, 32, 97, 98, 10, 99, 100] = a @ w @ b}
     < card {w \<in> set KEYWORDS_REVERSED.
          \<exists>a b. [1492, 1494, 1493, 1495, 32, 97, 98, 10, 99, 100] = a @ w @ b} \<and>
   detect_and_fix_direction [1492, 1494, 1493, 1495, 32, 97, 98, 10, 99, 100]
     = [98, 97, 32, 1495, 1493, 1494, 1492, 10, 100, 99] \<and>
   card {w \<in> set KEYWORDS_REVERSED.
          \<exists>a b. [1495, 1493, 1494, 1492, 32, 1492, 1494, 1493, 1495] = a @ w @ b}
     \<le> card {w \<in> set KEYWORDS_NORMAL.
          \<exists>a b. [1495, 1493, 1494, 1492, 32, 1492, 1494, 1493, 1495] = a @ w @ b} \<and>
   detect_and_fix_direction [1495, 1493, 1494, 1492, 32, 1492, 1494, 1493, 1495]
     = [1495, 1493, 1494, 1492, 32, 1492, 1494, 1493, 1495]"
proof -
  let ?t1 = "[1492, 1494, 1493, 1495, 32, 97, 98, 10, 99, 100] :: ustr"
  let ?t2 = "[1495, 1493, 1494, 1492, 32, 1492, 1494, 1493, 1495] :: ustr"
  have h1: "card {w \<in> set KEYWORDS_NORMAL. \<exists>a b. ?t1 = a @ w @ b}
              < card {w \<in> set KEYWORDS_REVERSED. \<exists>a b. ?t1 = a @ w @ b}"
    unfolding keyword_presence
    by (simp add: keyword_score_def KEYWORDS_NORMAL_def KEYWORDS_REVERSED_def)
  have h2: "card {w \<in> set KEYWORDS_REVERSED. \<exists>a b. ?t2 = a @ w @ b}
              \<le> card {w \<in> set KEYWORDS_NORMAL. \<exists>a b. ?t2 = a @ w @ b}"
    unfolding keyword_presence
    by (simp add: keyword_score_def KEYWORDS_NORMAL_def KEYWORDS_REVERSED_def)
  have m: "join_nl (map rev (split_nl ?t1)) = [98, 97, 32, 1495, 1493, 1494, 1492, 10, 100, 99]"
    by simp
  from detect_and_fix_direction_presence_rule[of ?t1] h1
  have r1: "detect_and_fix_direction ?t1 = join_nl (map rev (split_nl ?t1))" by blast
  from detect_and_fix_direction_presence_rule[of ?t2] h2
  have r2: "detect_and_fix_direction ?t2 = ?t2" by blast
  show ?thesis using h1 h2 r1 r2 m by simp
qed

text \<open>
  Counting occurrences gives another result. In the one-line text with the normal
  keyword for \<^emph>\<open>contract\<close> three times and two different reversed keywords once each,
  the normal keywords occur three times and the reversed ones twice, so the rule on
  occurrences leaves the text as it is; the code finds one normal and two reversed
  keywords and mirrors the line.
\<close>

theorem detect_and_fix_direction_counterexample:
  "occurrence_score KEYWORDS_NORMAL
     [1495, 1493, 1494, 1492, 32, 1495, 1493, 1494, 1492, 32, 1495, 1493, 1494, 1492, 32,
      1512, 1499, 1493, 1513, 32, 1492, 1512, 1497, 1491] = 3 \<and>
   occurrence_score KEYWORDS_REVERSED
     [1495, 1493, 1494, 1492, 32, 1495, 1493, 1494, 1492, 32, 1495, 1493, 1494, 1492, 32,
      1512, 1499, 1493, 1513, 32, 1492, 1512, 1497, 1491] = 2 \<and>
   spec_detect_and_fix_direction
     [1495, 1493, 1494, 1492, 32, 1495, 1493, 1494, 1492, 32, 1495, 1493, 1494, 1492, 32,
      1512, 1499, 1493, 1513, 32, 1492, 1512, 1497, 1491]
     = [1495, 1493, 1494, 1492, 32, 1495, 1493, 1494, 1492, 32, 1495, 1493, 1494, 1492, 32,
        1512, 1499, 1493, 1513, 32, 1492, 1512, 1497, 1491] \<and>
   detect_and_fix_direction
     [1495, 1493, 1494, 1492, 32, 1495, 1493, 1494, 1492, 32, 1495, 1493, 1494, 1492, 32,
      1512, 1499, 1493, 1513, 32, 1492, 1512, 1497, 1491]
     = [1491, 1497, 1512, 1492, 32, 1513, 1493, 1499, 1512, 32, 1492, 1494, 1493, 1495, 32,
        1492, 1494, 1493, 1495, 32, 1492, 1494, 1493, 1495]"
proof -
  let ?t = "[1495, 1493, 1494, 1492, 32, 1495, 1493, 1494, 1492, 32, 1495, 1493, 1494, 1492,
             32, 1512, 1499, 1493, 1513, 32, 1492, 1512, 1497, 1491] :: ustr"
  have n: "occurrence_score KEYWORDS_NORMAL ?t = 3"
    by (simp add: occurrence_score_def KEYWORDS_NORMAL_def)
  have r: "occurrence_score KEYWORDS_REVERSED ?t = 2"
    by (simp add: occurrence_score_def KEYWORDS_REVERSED_def)
  have s: "spec_detect_and_fix_direction ?t = ?t"
    by (simp add: spec_detect_and_fix_direction_def n r)
  have d: "detect_and_fix_direction ?t
     = [1491, 1497, 1512, 1492, 32, 1513, 1493, 1499, 1512, 32, 1492, 1494, 1493, 1495, 32,
        1492, 1494, 1493, 1495, 32, 1492, 1494, 1493, 1495]"
    by (simp add: detect_and_fix_direction_def keyword_score_def KEYWORDS_NORMAL_def
          KEYWORDS_REVERSED_def)
  show ?thesis using n r s d by simp
qed

subsection \<open>Clause segmentation\<close>

lemma dropWhile_keeps:
  assumes "\<exists>x \<in> set xs. \<not> P x"
  shows "dropWhile P xs \<noteq> []"
  using assms by (induction xs) auto

lemma hd_dropWhile_not: "dropWhile P xs \<noteq> [] \<Longrightarrow> \<not> P (hd (dropWhile P xs))"
  by (induction xs) auto

lemma rstrip_prefix: "\<exists>r. s = rstrip s @ r"
proof -
  have "rev s = takeWhile is_space (rev s) @ dropWhile is_space (rev s)" by simp
  then have "s = rev (dropWhile is_space (rev s)) @ rev (takeWhile is_space (rev s))"
    by (metis rev_append rev_rev_ident)
  then show ?thesis unfolding rstrip_def by blast
qed

lemma rstrip_last: "rstrip s \<noteq> [] \<Longrightarrow> \<not> is_space (last (rstrip s))"
proof -
  assume ne: "rstrip s \<noteq> []"
  then have d: "dropWhile is_space (rev s) \<noteq> []" by (simp add: rstrip_def)
  have "last (rstrip s) = hd (dropWhile is_space (rev s))"
    unfolding rstrip_def using d by (simp add: last_rev)
  then show ?thesis using hd_dropWhile_not[OF d] by simp
qed

lemma rstrip_hd: "rstrip s \<noteq> [] \<Longrightarrow> hd (rstrip s) = hd s"
proof -
  assume ne: "rstrip s \<noteq> []"
  obtain r where "s = rstrip s @ r" using rstrip_prefix by blast
  then have "hd s = hd (rstrip s @ r)" by simp
  then show ?thesis using ne by simp
qed

lemma strip_hd: "strip s \<noteq> [] \<Longrightarrow> \<not> is_space (hd (strip s))"
proof -
  assume ne: "strip s \<noteq> []"
  then have l: "lstrip s \<noteq> []" by (auto simp: strip_def rstrip_def)
  have "hd (strip s) = hd (lstrip s)" using ne unfolding strip_def by (rule rstrip_hd)
  moreover have "\<not> is_space (hd (lstrip s))"
    using l unfolding lstrip_def by (rule hd_dropWhile_not)
  ultimately show ?thesis by simp
qed

lemma strip_last: "strip s \<noteq> [] \<Longrightarrow> \<not> is_space (last (strip s))"
  unfolding strip_def by (rule rstrip_last)

lemma strip_fixed:
  assumes "s \<noteq> []" and "\<not> is_space (hd s)" and "\<not> is_space (last s)"
  shows "strip s = s"
proof -
  have l: "lstrip s = s" using assms(1,2) by (cases s) (simp_all add: lstrip_def)
  have "dropWhile is_space (rev s) = rev s"
    using assms(1,3) by (cases "rev s") (simp_all add: hd_rev[symmetric] del: hd_rev)
  then have "rstrip s = s" by (simp add: rstrip_def)
  with l show ?thesis by (simp add: strip_def)
qed

lemma strip_idem: "strip (strip s) = strip s"
proof (cases "strip s = []")
  case True
  have "strip [] = []" by (simp add: strip_def lstrip_def rstrip_def)
  with True show ?thesis by simp
next
  case False
  then show ?thesis using strip_hd strip_last by (intro strip_fixed) auto
qed

text \<open>Every string the first loop puts into \<open>clauses\<close> is a stripped string.\<close>

lemma group_lines_stripped:
  assumes "group_lines ls acc cur = (acc', cur')"
    and "\<forall>x \<in> set acc. strip x = x"
  shows "\<forall>x \<in> set acc'. strip x = x"
  using assms
proof (induction ls arbitrary: acc cur)
  case Nil
  then show ?case by simp
next
  case (Cons l ls)
  show ?case
  proof (cases "strip l = []")
    case True
    with Cons.prems have "group_lines ls acc cur = (acc', cur')" by simp
    then show ?thesis using Cons.prems(2) by (rule Cons.IH)
  next
    case False
    show ?thesis
    proof (cases "is_new_clause (strip l)")
      case True
      let ?acc = "if cur \<noteq> [] \<and> length (strip cur) > 15 then acc @ [strip cur] else acc"
      from Cons.prems(1) False True
      have g: "group_lines ls ?acc (strip l) = (acc', cur')" by (simp add: Let_def)
      have "\<forall>x \<in> set ?acc. strip x = x" using Cons.prems(2) by (simp add: strip_idem)
      with g show ?thesis by (rule Cons.IH)
    next
      case nonew: False
      from Cons.prems(1) False nonew
      have "group_lines ls acc (if cur \<noteq> [] then cur @ [32] @ strip l else strip l) = (acc', cur')"
        by (simp add: Let_def)
      then show ?thesis using Cons.prems(2) by (rule Cons.IH)
    qed
  qed
qed

lemma grouped_clauses_stripped:
  assumes "g \<in> set (grouped_clauses t)"
  shows "strip g = g"
proof -
  obtain acc cur where gl: "group_lines (split_nl t) [] [] = (acc, cur)"
    by (cases "group_lines (split_nl t) [] []") auto
  have acc: "\<forall>x \<in> set acc. strip x = x"
    using gl by (rule group_lines_stripped) simp
  from assms gl have "g \<in> set acc \<or> g = strip cur"
    by (auto simp: grouped_clauses_def split: if_splits)
  then show ?thesis using acc by (auto simp: strip_idem)
qed

lemma cut_clause_fragments:
  assumes "f \<in> set (cut_clause clause prev_pos ps)"
  shows "15 < length f \<and> strip f = f"
  using assms
  by (induction ps arbitrary: prev_pos) (auto simp: Let_def strip_idem split: if_splits)

text \<open>
  Every fragment that reaches the final clean-up is a stripped string of more than 15
  characters.
\<close>

lemma final_clauses_fragments:
  assumes "f \<in> set (final_clauses t)"
  shows "15 < length f \<and> strip f = f"
proof -
  from assms obtain g where g: "g \<in> set (grouped_clauses t)" and f: "f \<in> set (resplit g)"
    by (auto simp: final_clauses_def)
  show ?thesis
  proof (cases "match_starts split_pattern g = []")
    case True
    with f have "f = g" "15 < length g" by (auto simp: resplit_def split: if_splits)
    then show ?thesis using grouped_clauses_stripped[OF g] by simp
  next
    case False
    with f have "f \<in> set (cut_clause g 0 (match_starts split_pattern g))"
      by (simp add: resplit_def)
    then show ?thesis by (rule cut_clause_fragments)
  qed
qed

text \<open>White-space normalisation of a stripped, non-empty string leaves it non-empty.\<close>

lemma sub_st_space_skip:
  assumes "\<not> is_space c"
  shows "sub_st (Rep [Space] 1 None) repl p (c # cs) = c # sub_st (Rep [Space] 1 None) repl (Some c) cs"
  using assms by (simp add: in_class_def)

lemma normalize_ws_nonempty:
  assumes "f \<noteq> []" and "strip f = f"
  shows "normalize_ws f \<noteq> []"
proof -
  obtain c cs where f: "f = c # cs" using assms(1) by (cases f) auto
  have nsp: "\<not> is_space c" using strip_hd[of f] assms f by simp
  define r where "r = sub_st (Rep [Space] 1 None) [32] (Some c) cs"
  have sub: "re_sub (Rep [Space] 1 None) [32] f = c # r"
    unfolding re_sub_def f r_def using nsp by (rule sub_st_space_skip)
  have l: "lstrip (c # r) = c # r" using nsp by (simp add: lstrip_def)
  have "dropWhile is_space (rev (c # r)) \<noteq> []"
    by (rule dropWhile_keeps) (use nsp in auto)
  then have "rstrip (c # r) \<noteq> []" by (simp add: rstrip_def)
  then show ?thesis unfolding normalize_ws_def sub strip_def l .
qed

text \<open>
  The filter of the clean-up: a non-empty string all of whose characters are digits or
  non-word characters matches \<open>^[\d\W]+$\<close>.
\<close>

lemma rep_states_all:
  assumes "\<forall>ch \<in> set s. in_class cls ch" and "m \<le> length s"
  shows "\<exists>p' other. rep_states cls m None p s = (p', []) # other"
  using assms
proof (induction s arbitrary: m p)
  case Nil
  then show ?case by simp
next
  case (Cons c cs)
  have "\<forall>ch \<in> set cs. in_class cls ch" and "m - 1 \<le> length cs"
    using Cons.prems by auto
  then obtain p' other where "rep_states cls (m - 1) None (Some c) cs = (p', []) # other"
    using Cons.IH by blast
  then show ?case using Cons.prems(1) by simp
qed

lemma digits_only_match:
  assumes "c \<noteq> []" and "\<forall>ch \<in> set c. is_digit ch \<or> \<not> is_word ch"
  shows "re_match digits_only_pattern c"
proof -
  let ?cls = "[Digit, NotWord]"
  have all: "\<forall>ch \<in> set c. in_class ?cls ch" using assms(2) by (simp add: in_class_def)
  have "1 \<le> length c" using assms(1) by (cases c) auto
  with all obtain p' other where "rep_states ?cls 1 None None c = (p', []) # other"
    using rep_states_all by blast
  then have "mt (Seq (Rep ?cls 1 None) Eol) (None, c) \<noteq> []" by simp
  then show ?thesis by (simp add: re_match_def digits_only_pattern_def)
qed

lemma kept_clause_has_letter:
  assumes "c \<noteq> []" and "\<not> re_match digits_only_pattern c"
  shows "\<exists>ch \<in> set c. is_word ch \<and> \<not> is_digit ch"
  using assms digits_only_match[of c] by blast

lemma result_clauses_split:
  assumes "result_clauses ev = Some cl"
  shows "\<exists>t. result_text ev = Some t \<and> cl = split_to_clauses t"
  using assms
  by (auto simp: result_clauses_def result_text_def lambda_handler_def Let_def
        split: option.splits if_splits prod.splits)

text \<open>
  White-space normalisation changes white space only: the other characters stay, in
  their order.
\<close>

lemma non_space_append: "non_space (a @ b) = non_space a @ non_space b"
  by (simp add: non_space_def)

lemma non_space_spaces: "\<forall>x \<in> set s. is_space x \<Longrightarrow> non_space s = []"
  by (induction s) (auto simp: non_space_def)

lemma non_space_dropWhile: "non_space (dropWhile is_space s) = non_space s"
  by (induction s) (auto simp: non_space_def)

lemma non_space_rev: "non_space (rev s) = rev (non_space s)"
  by (simp add: non_space_def rev_filter)

lemma non_space_strip: "non_space (strip s) = non_space s"
  by (simp add: strip_def lstrip_def rstrip_def non_space_rev non_space_dropWhile)

lemma rep_states_suffix:
  assumes "(p', rest') \<in> set (rep_states cls m n p s)"
  shows "\<exists>pre. s = pre @ rest' \<and> (\<forall>x \<in> set pre. in_class cls x)"
  using assms
proof (induction s arbitrary: m n p)
  case Nil
  then show ?case by (auto split: if_splits)
next
  case (Cons c cs)
  from Cons.prems
  consider (more) "in_class cls c"
      "(p', rest') \<in> set (rep_states cls (m - 1) (map_option (\<lambda>k. k - 1) n) (Some c) cs)"
    | (stop) "rest' = c # cs"
    by (auto split: if_splits)
  then show ?case
  proof cases
    case more
    from Cons.IH[OF more(2)] obtain pre where "cs = pre @ rest'" "\<forall>x \<in> set pre. in_class cls x"
      by blast
    then have "c # cs = (c # pre) @ rest'" "\<forall>x \<in> set (c # pre). in_class cls x"
      using more(1) by simp_all
    then show ?thesis by blast
  next
    case stop
    then have "c # cs = [] @ rest'" by simp
    then show ?thesis by fastforce
  qed
qed

lemma rep_states_zero_nonempty: "rep_states cls 0 n p s \<noteq> []"
  by (cases s) simp_all

lemma in_class_space: "in_class [Space] x \<longleftrightarrow> is_space x"
  by (simp add: in_class_def)

lemma non_space_sub_ws:
  "non_space (sub_st (Rep [Space] 1 None) [32] p s) = non_space s"
proof (induction "length s" arbitrary: s p rule: less_induct)
  case less
  show ?case
  proof (cases s)
    case Nil
    then show ?thesis by (simp add: non_space_def)
  next
    case (Cons c cs)
    show ?thesis
    proof (cases "is_space c")
      case False
      have "sub_st (Rep [Space] 1 None) [32] p (c # cs)
              = c # sub_st (Rep [Space] 1 None) [32] (Some c) cs"
        using False by (simp add: in_class_def)
      moreover have "non_space (sub_st (Rep [Space] 1 None) [32] (Some c) cs) = non_space cs"
        using less[of cs "Some c"] Cons by simp
      ultimately show ?thesis using False Cons by (simp add: non_space_def)
    next
      case True
      have m: "mt (Rep [Space] 1 None) (p, c # cs) = rep_states [Space] 0 None (Some c) cs"
        using True by (simp add: in_class_def)
      obtain p' rest' other where st: "rep_states [Space] 0 None (Some c) cs = (p', rest') # other"
        using rep_states_zero_nonempty[of "[Space]" None "Some c" cs]
        by (cases "rep_states [Space] 0 None (Some c) cs") auto
      then have "(p', rest') \<in> set (rep_states [Space] 0 None (Some c) cs)" by simp
      then obtain pre where pre: "cs = pre @ rest'" "\<forall>x \<in> set pre. is_space x"
        using rep_states_suffix in_class_space by blast
      then have len: "length rest' < Suc (length cs)" by simp
      have e: "sub_st (Rep [Space] 1 None) [32] p (c # cs)
              = [32] @ sub_st (Rep [Space] 1 None) [32] p' rest'"
        using m st len by simp
      have r1: "non_space (sub_st (Rep [Space] 1 None) [32] p' rest') = non_space rest'"
        using less[of rest' p'] len Cons by simp
      have r2: "non_space (c # cs) = non_space rest'"
        using True pre by (simp add: non_space_def)
      have r3: "non_space [32] = []" by (simp add: non_space_def is_space_def)
      have "non_space (sub_st (Rep [Space] 1 None) [32] p (c # cs))
              = non_space [32] @ non_space (sub_st (Rep [Space] 1 None) [32] p' rest')"
        unfolding e by (rule non_space_append)
      also have "\<dots> = non_space rest'" unfolding r1 r3 by simp
      also have "\<dots> = non_space (c # cs)" using r2 by simp
      finally show ?thesis unfolding Cons .
    qed
  qed
qed

lemma non_space_normalize_ws: "non_space (normalize_ws f) = non_space f"
  unfolding normalize_ws_def re_sub_def non_space_strip by (rule non_space_sub_ws)

text \<open>
  Where a fragment comes from: its characters other than white space stand together,
  in their order, among those of the text.
\<close>

lemma non_space_join_nl: "non_space (join_nl ls) = concat (map non_space ls)"
proof (induction ls rule: join_nl.induct)
  case 1
  then show ?case by (simp add: non_space_def)
next
  case (2 l)
  then show ?case by simp
next
  case (3 l m ls)
  have "non_space [10] = []" by (simp add: non_space_def is_space_def)
  then have "non_space (l @ 10 # join_nl (m # ls)) = non_space l @ non_space (join_nl (m # ls))"
    using non_space_append[of l "[10] @ join_nl (m # ls)"] non_space_append[of "[10]"]
    by simp
  with 3 show ?case by simp
qed

lemma non_space_strip_empty: "strip l = [] \<Longrightarrow> non_space l = []"
  using non_space_strip[of l] by (simp add: non_space_def)

lemma group_lines_origin:
  assumes "group_lines ls acc cur = (acc', cur')"
    and "\<exists>u. d = u @ non_space cur"
    and "\<forall>x \<in> set acc. \<exists>u v. d = u @ non_space x @ v"
  shows "(\<exists>u. d @ concat (map non_space ls) = u @ non_space cur') \<and>
         (\<forall>x \<in> set acc'. \<exists>u v. d @ concat (map non_space ls) = u @ non_space x @ v)"
  using assms
proof (induction ls arbitrary: acc cur d)
  case Nil
  then show ?case by simp
next
  case (Cons l ls)
  let ?d = "d @ non_space l"
  have ext: "\<exists>u v. ?d = u @ non_space x @ v" if "\<exists>u v. d = u @ non_space x @ v" for x
  proof -
    from that obtain u v where "d = u @ non_space x @ v" by blast
    then have "?d = u @ non_space x @ (v @ non_space l)" by simp
    then show ?thesis by blast
  qed
  have goal: "d @ concat (map non_space (l # ls)) = ?d @ concat (map non_space ls)" by simp
  show ?case
  proof (cases "strip l = []")
    case True
    then have e: "non_space l = []" by (rule non_space_strip_empty)
    from Cons.prems(1) True have g: "group_lines ls acc cur = (acc', cur')" by simp
    show ?thesis
      unfolding goal using Cons.IH[OF g, of ?d] Cons.prems(2,3) e by simp
  next
    case False
    show ?thesis
    proof (cases "is_new_clause (strip l)")
      case True
      let ?acc = "if cur \<noteq> [] \<and> length (strip cur) > 15 then acc @ [strip cur] else acc"
      from Cons.prems(1) False True
      have g: "group_lines ls ?acc (strip l) = (acc', cur')" by (simp add: Let_def)
      have c: "\<exists>u. ?d = u @ non_space (strip l)" by (simp add: non_space_strip)
      from Cons.prems(2) obtain u where "d = u @ non_space cur" by blast
      then have "?d = u @ non_space (strip cur) @ non_space l" by (simp add: non_space_strip)
      then have cur_in: "\<exists>u v. ?d = u @ non_space (strip cur) @ v" by blast
      have a: "\<forall>x \<in> set ?acc. \<exists>u v. ?d = u @ non_space x @ v"
        using Cons.prems(3) ext cur_in by auto
      show ?thesis unfolding goal by (rule Cons.IH[OF g c a])
    next
      case nonew: False
      let ?cur = "if cur \<noteq> [] then cur @ [32] @ strip l else strip l"
      from Cons.prems(1) False nonew
      have g: "group_lines ls acc ?cur = (acc', cur')" by (simp add: Let_def)
      have sp: "non_space [32] = []" by (simp add: non_space_def is_space_def)
      from Cons.prems(2) obtain u where u: "d = u @ non_space cur" by blast
      have "non_space ?cur = non_space cur @ non_space l"
      proof (cases "cur = []")
        case True
        then show ?thesis by (simp add: non_space_strip) (simp add: non_space_def)
      next
        case False
        have "non_space (cur @ [32] @ strip l)
                = non_space cur @ non_space [32] @ non_space (strip l)"
          by (simp only: non_space_append)
        then show ?thesis using False by (simp add: sp non_space_strip)
      qed
      then have c: "\<exists>u. ?d = u @ non_space ?cur" using u by auto
      have a: "\<forall>x \<in> set acc. \<exists>u v. ?d = u @ non_space x @ v"
        using Cons.prems(3) ext by auto
      show ?thesis unfolding goal by (rule Cons.IH[OF g c a])
    qed
  qed
qed

lemma grouped_clauses_origin:
  assumes "g \<in> set (grouped_clauses t)"
  shows "\<exists>u v. non_space t = u @ non_space g @ v"
proof -
  obtain acc cur where gl: "group_lines (split_nl t) [] [] = (acc, cur)"
    by (cases "group_lines (split_nl t) [] []") auto
  have d: "non_space t = [] @ concat (map non_space (split_nl t))"
    using non_space_join_nl[of "split_nl t"] by (simp add: join_split_nl)
  have inv: "(\<exists>u. [] @ concat (map non_space (split_nl t)) = u @ non_space cur) \<and>
             (\<forall>x \<in> set acc. \<exists>u v. [] @ concat (map non_space (split_nl t)) = u @ non_space x @ v)"
    using gl by (rule group_lines_origin) (simp_all add: non_space_def)
  from assms gl have "g \<in> set acc \<or> g = strip cur"
    by (auto simp: grouped_clauses_def split: if_splits)
  then show ?thesis
  proof
    assume "g \<in> set acc"
    then show ?thesis using inv d by auto
  next
    assume "g = strip cur"
    moreover from inv obtain u where "non_space t = u @ non_space cur @ []" using d by auto
    ultimately show ?thesis using non_space_strip by metis
  qed
qed

lemma non_space_piece: "\<exists>u v. non_space g = u @ non_space (take n (drop m g)) @ v"
proof -
  have "drop m g = take n (drop m g) @ drop n (drop m g)"
    by (simp only: append_take_drop_id)
  moreover have "g = take m g @ drop m g" by (simp only: append_take_drop_id)
  ultimately have "g = take m g @ take n (drop m g) @ drop n (drop m g)" by metis
  then have "non_space g = non_space (take m g) @ non_space (take n (drop m g))
                             @ non_space (drop n (drop m g))"
    by (metis non_space_append)
  then show ?thesis by blast
qed

lemma cut_clause_origin:
  assumes "f \<in> set (cut_clause clause prev_pos ps)"
  shows "\<exists>u v. non_space clause = u @ non_space f @ v"
  using assms
proof (induction ps arbitrary: prev_pos)
  case Nil
  then have "f = strip (drop prev_pos clause)" by (auto simp: Let_def split: if_splits)
  moreover have "\<exists>u v. non_space clause = u @ non_space (take (length clause) (drop prev_pos clause)) @ v"
    by (rule non_space_piece)
  ultimately show ?case by (simp add: non_space_strip)
next
  case (Cons pos ps)
  then consider "f = strip (slice clause prev_pos pos)" | "f \<in> set (cut_clause clause (pos + 1) ps)"
    by (auto simp: Let_def split: if_splits)
  then show ?case
  proof cases
    case 1
    then show ?thesis using non_space_piece[of clause "pos - prev_pos" prev_pos]
      by (simp add: non_space_strip slice_def)
  next
    case 2
    then show ?thesis by (rule Cons.IH)
  qed
qed

lemma final_clauses_origin:
  assumes "f \<in> set (final_clauses t)"
  shows "\<exists>u v. non_space t = u @ non_space f @ v"
proof -
  from assms obtain g where g: "g \<in> set (grouped_clauses t)" and f: "f \<in> set (resplit g)"
    by (auto simp: final_clauses_def)
  from grouped_clauses_origin[OF g] obtain u v where t: "non_space t = u @ non_space g @ v"
    by blast
  have "\<exists>u' v'. non_space g = u' @ non_space f @ v'"
  proof (cases "match_starts split_pattern g = []")
    case True
    with f have "f = g" by (auto simp: resplit_def split: if_splits)
    then have "non_space g = [] @ non_space f @ []" by simp
    then show ?thesis by blast
  next
    case False
    with f have "f \<in> set (cut_clause g 0 (match_starts split_pattern g))"
      by (simp add: resplit_def)
    then show ?thesis by (rule cut_clause_origin)
  qed
  then obtain u' v' where "non_space g = u' @ non_space f @ v'" by blast
  with t have "non_space t = (u @ u') @ non_space f @ (v' @ v)" by simp
  then show ?thesis by blast
qed

lemmas clause_defs = split_to_clauses_def cleanup_def final_clauses_def grouped_clauses_def
  resplit_def normalize_ws_def is_new_clause_def SECTION_HEADERS_def
  CLAUSE_NUMBER_PATTERN_def split_pattern_def digits_only_pattern_def match_starts_def
  re_match_def re_sub_def slice_def

text \<open>
  The text \<open>1_2\<close>, twelve carriage returns, \<open>3_4\<close>: 18 characters on one line. No
  transform changes it; the clean-up of the clauses collapses the carriage returns.
\<close>

lemma sanitize_text_short:
  "sanitize_text [49, 95, 50, 13, 13, 13, 13, 13, 13, 13, 13, 13, 13, 13, 13, 51, 95, 52]
     = [49, 95, 50, 13, 13, 13, 13, 13, 13, 13, 13, 13, 13, 13, 13, 51, 95, 52]"
proof -
  let ?t = "[49, 95, 50, 13, 13, 13, 13, 13, 13, 13, 13, 13, 13, 13, 13, 51, 95, 52] :: ustr"
  have d: "detect_and_fix_direction ?t = ?t"
    by (simp add: detect_and_fix_direction_def keyword_score_def KEYWORDS_NORMAL_def
          KEYWORDS_REVERSED_def)
  have p: "sanitize_pii ?t = (?t, [])"
    by (simp add: sanitize_pii_def re_search_def pattern_defs class_defs Let_def)
  have n: "clean_ocr_noise ?t = ?t"
    by (simp add: clean_ocr_noise_def re_sub_def pattern_defs class_defs asc_def Let_def
          strip_defs)
  show ?thesis by (simp add: sanitize_text_def d p n)
qed

lemma split_to_clauses_short:
  "split_to_clauses [49, 95, 50, 13, 13, 13, 13, 13, 13, 13, 13, 13, 13, 13, 13, 51, 95, 52]
     = [asc ''1_2 3_4'']"
  by (simp add: clause_defs class_defs strip_defs asc_def Let_def)

text \<open>
  The text of two lines \<open>1. \<close>\<^emph>\<open>rental contract\<close> and \<^emph>\<open>the landlord undertakes\<close> (in
  Hebrew): the first line opens a numbered clause and the second is joined to it.
\<close>

lemma sanitize_text_two_lines:
  "sanitize_text [49, 46, 32, 1495, 1493, 1494, 1492, 32, 1513, 1499, 1497, 1512, 1493, 1514,
                  10, 1492, 1502, 1513, 1499, 1497, 1512, 32, 1502, 1514, 1495, 1497, 1497, 1489]
     = [49, 46, 32, 1495, 1493, 1494, 1492, 32, 1513, 1499, 1497, 1512, 1493, 1514,
        10, 1492, 1502, 1513, 1499, 1497, 1512, 32, 1502, 1514, 1495, 1497, 1497, 1489]"
proof -
  let ?t = "[49, 46, 32, 1495, 1493, 1494, 1492, 32, 1513, 1499, 1497, 1512, 1493, 1514,
             10, 1492, 1502, 1513, 1499, 1497, 1512, 32, 1502, 1514, 1495, 1497, 1497, 1489] :: ustr"
  have d: "detect_and_fix_direction ?t = ?t"
    by (simp add: detect_and_fix_direction_def keyword_score_def KEYWORDS_NORMAL_def
          KEYWORDS_REVERSED_def)
  have p: "sanitize_pii ?t = (?t, [])"
    by (simp add: sanitize_pii_def re_search_def pattern_defs class_defs Let_def)
  have n: "clean_ocr_noise ?t = ?t"
    by (simp add: clean_ocr_noise_def re_sub_def pattern_defs class_defs asc_def Let_def
          strip_defs)
  show ?thesis by (simp add: sanitize_text_def d p n)
qed

lemma split_to_clauses_two_lines:
  "split_to_clauses
     [49, 46, 32, 1495, 1493, 1494, 1492, 32, 1513, 1499, 1497, 1512, 1493, 1514,
      10, 1492, 1502, 1513, 1499, 1497, 1512, 32, 1502, 1514, 1495, 1497, 1497, 1489]
     = [[49, 46, 32, 1495, 1493, 1494, 1492, 32, 1513, 1499, 1497, 1512, 1493, 1514,
         32, 1492, 1502, 1513, 1499, 1497, 1512, 32, 1502, 1514, 1495, 1497, 1497, 1489]]"
  by (simp add: clause_defs class_defs strip_defs Let_def)

text \<open>
  C8. Every clause of the result is a non-empty stripped string that contains a word
  character other than a decimal digit (a letter, an underscore, or a numeric character
  that is not a decimal digit, such as a superscript two). It is the
  white-space-normalised form of a fragment of the sanitized text, and the length test
  is made on that fragment: the fragment is stripped and has more than 15 characters,
  white space inside it included. The clause has the fragment's characters other than
  white space, and these stand together, in their order, among those of the sanitized
  text.
\<close>

theorem clauses_invariant:
  assumes "result_clauses ev = Some cl" and "c \<in> set cl"
  shows "\<exists>t f. result_text ev = Some t \<and> f \<in> set (final_clauses t) \<and>
           15 < length f \<and> strip f = f \<and> c = normalize_ws f \<and>
           non_space c = non_space f \<and> (\<exists>u v. non_space t = u @ non_space c @ v) \<and>
           c \<noteq> [] \<and> strip c = c \<and> (\<exists>ch \<in> set c. is_word ch \<and> \<not> is_digit ch)"
proof -
  from assms(1) obtain t where t: "result_text ev = Some t" and "cl = split_to_clauses t"
    using result_clauses_split by blast
  with assms(2) obtain f where f: "f \<in> set (final_clauses t)" and c: "c = normalize_ws f"
    and keep: "\<not> re_match digits_only_pattern c"
    by (auto simp: split_to_clauses_def cleanup_def)
  have ff: "15 < length f" "strip f = f" using final_clauses_fragments[OF f] by simp_all
  then have "f \<noteq> []" by auto
  then have ne: "c \<noteq> []" unfolding c using ff(2) by (rule normalize_ws_nonempty)
  have st: "strip c = c" unfolding c normalize_ws_def by (rule strip_idem)
  have ns: "non_space c = non_space f" unfolding c by (rule non_space_normalize_ws)
  have org: "\<exists>u v. non_space t = u @ non_space c @ v"
    unfolding ns using f by (rule final_clauses_origin)
  have "\<exists>ch \<in> set c. is_word ch \<and> \<not> is_digit ch"
    using ne keep by (rule kept_clause_has_letter)
  with t f ff c ns org ne st show ?thesis by blast
qed

theorem clauses_invariant_witness:
  "result_clauses (text_event
     [49, 46, 32, 1495, 1493, 1494, 1492, 32, 1513, 1499, 1497, 1512, 1493, 1514,
      10, 1492, 1502, 1513, 1499, 1497, 1512, 32, 1502, 1514, 1495, 1497, 1497, 1489])
     = Some [[49, 46, 32, 1495, 1493, 1494, 1492, 32, 1513, 1499, 1497, 1512, 1493, 1514,
              32, 1492, 1502, 1513, 1499, 1497, 1512, 32, 1502, 1514, 1495, 1497, 1497, 1489]] \<and>
   (\<exists>t f. result_text (text_event
       [49, 46, 32, 1495, 1493, 1494, 1492, 32, 1513, 1499, 1497, 1512, 1493, 1514,
        10, 1492, 1502, 1513, 1499, 1497, 1512, 32, 1502, 1514, 1495, 1497, 1497, 1489])
       = Some t \<and>
     f \<in> set (final_clauses t) \<and> 15 < length f \<and> strip f = f \<and>
     [49, 46, 32, 1495, 1493, 1494, 1492, 32, 1513, 1499, 1497, 1512, 1493, 1514,
      32, 1492, 1502, 1513, 1499, 1497, 1512, 32, 1502, 1514, 1495, 1497, 1497, 1489]
       = normalize_ws f \<and>
     non_space [49, 46, 32, 1495, 1493, 1494, 1492, 32, 1513, 1499, 1497, 1512, 1493, 1514,
                32, 1492, 1502, 1513, 1499, 1497, 1512, 32, 1502, 1514, 1495, 1497, 1497, 1489]
       = non_space f \<and>
     (\<exists>u v. non_space t = u @ non_space
        [49, 46, 32, 1495, 1493, 1494, 1492, 32, 1513, 1499, 1497, 1512, 1493, 1514,
         32, 1492, 1502, 1513, 1499, 1497, 1512, 32, 1502, 1514, 1495, 1497, 1497, 1489] @ v)) \<and>
   strip [49, 46, 32, 1495, 1493, 1494, 1492, 32, 1513, 1499, 1497, 1512, 1493, 1514,
          32, 1492, 1502, 1513, 1499, 1497, 1512, 32, 1502, 1514, 1495, 1497, 1497, 1489]
     = [49, 46, 32, 1495, 1493, 1494, 1492, 32, 1513, 1499, 1497, 1512, 1493, 1514,
        32, 1492, 1502, 1513, 1499, 1497, 1512, 32, 1502, 1514, 1495, 1497, 1497, 1489] \<and>
   (\<exists>ch \<in> set [49, 46, 32, 1495, 1493, 1494, 1492, 32, 1513, 1499, 1497, 1512, 1493, 1514,
               32, 1492, 1502, 1513, 1499, 1497, 1512, 32, 1502, 1514, 1495, 1497, 1497, 1489].
      is_word ch \<and> \<not> is_digit ch)"
proof -
  let ?t = "[49, 46, 32, 1495, 1493, 1494, 1492, 32, 1513, 1499, 1497, 1512, 1493, 1514,
             10, 1492, 1502, 1513, 1499, 1497, 1512, 32, 1502, 1514, 1495, 1497, 1497, 1489] :: ustr"
  let ?c = "[49, 46, 32, 1495, 1493, 1494, 1492, 32, 1513, 1499, 1497, 1512, 1493, 1514,
             32, 1492, 1502, 1513, 1499, 1497, 1512, 32, 1502, 1514, 1495, 1497, 1497, 1489] :: ustr"
  have "?t \<noteq> []" by simp
  then have "result_clauses (text_event ?t) = Some (split_to_clauses (sanitize_text ?t))"
    by (rule result_clauses_eq)
  then have h1: "result_clauses (text_event ?t) = Some [?c]"
    by (simp only: sanitize_text_two_lines split_to_clauses_two_lines)
  have h2: "?c \<in> set [?c]" by simp
  from clauses_invariant[OF h1 h2] h1 show ?thesis by blast
qed

text \<open>
  A clause shorter than 16 characters that consists of digits, underscores and a space:
  the 18-character line \<open>1_2\<close>, twelve carriage returns, \<open>3_4\<close> passes the length test
  and is then normalised to the 7 characters \<open>1_2 3_4\<close>.
\<close>

theorem clauses_invariant_counterexample:
  "result_clauses (text_event
     [49, 95, 50, 13, 13, 13, 13, 13, 13, 13, 13, 13, 13, 13, 13, 51, 95, 52])
     = Some [asc ''1_2 3_4''] \<and>
   length (strip (asc ''1_2 3_4'')) = 7 \<and>
   list_all (\<lambda>ch. is_digit ch \<or> ch = 95 \<or> is_space ch) (asc ''1_2 3_4'')"
proof -
  let ?t = "[49, 95, 50, 13, 13, 13, 13, 13, 13, 13, 13, 13, 13, 13, 13, 51, 95, 52] :: ustr"
  have "?t \<noteq> []" by simp
  then have "result_clauses (text_event ?t) = Some (split_to_clauses (sanitize_text ?t))"
    by (rule result_clauses_eq)
  then have "result_clauses (text_event ?t) = Some [asc ''1_2 3_4'']"
    by (simp only: sanitize_text_short split_to_clauses_short)
  moreover have "length (strip (asc ''1_2 3_4'')) = 7"
    by (simp add: asc_def strip_defs is_space_def)
  moreover have "list_all (\<lambda>ch. is_digit ch \<or> ch = 95 \<or> is_space ch) (asc ''1_2 3_4'')"
    by (simp add: asc_def is_digit_def is_space_def)
  ultimately show ?thesis by simp
qed


end
